theory Spec2Isabelle
  imports Main "HOL-Library.Multiset"
begin

section \<open>Kinds, values and build failures\<close>

text \<open>
  The header \<^verbatim>\<open>shared_resources.hpp\<close> works on C++ types. A type used as a slot tag is a
  \<^emph>\<open>kind\<close>; the model is polymorphic in the type \<open>'k\<close> of kinds and decides
  \<^verbatim>\<open>std::is_same_v\<close> by equality on \<open>'k\<close>. A parameter pack \<^verbatim>\<open>Types...\<close> is a list of kinds,
  a function argument pack \<^verbatim>\<open>args...\<close> is a list of pairs (kind of the argument, its value).
  Kinds stand for the stored value types; they are never storages or containers themselves,
  and no kind converts implicitly to another.

  Everything the header rejects is rejected when the program is built. The model makes a
  rejected instantiation a value: every template that can fail to instantiate returns
  \<open>build_error + result\<close>.
\<close>

datatype build_error =
    Duplicate_types            \<comment> \<open>a \<^verbatim>\<open>type_list\<close> whose \<^verbatim>\<open>no_duplicates\<close> requirement fails\<close>
  | Constraint_not_satisfied   \<comment> \<open>a \<^verbatim>\<open>requires\<close> clause of the selected template fails\<close>
  | No_matching_function       \<comment> \<open>no constructor, member or overload accepts the call\<close>

text \<open>The kinds of the test fixtures: \<^verbatim>\<open>int\<close>, \<^verbatim>\<open>char\<close>, \<^verbatim>\<open>int *\<close>, \<^verbatim>\<open>char *\<close>, \<^verbatim>\<open>char **\<close>.\<close>

datatype kind = T_int | T_char | T_int_ptr | T_char_ptr | T_char_ptr_ptr

section \<open>Kind-set and set algebra (namespace internals)\<close>

text \<open>\<^verbatim>\<open>has_no_duplicates<Types...>\<close>, lines 30-52: one equation per specialisation.\<close>

fun has_no_duplicates :: "'k list \<Rightarrow> bool" where
  "has_no_duplicates [] = True"
| "has_no_duplicates [t] = True"
| "has_no_duplicates (head # second # tail) =
     (head \<noteq> second \<and> has_no_duplicates (head # tail) \<and> has_no_duplicates (second # tail))"

text \<open>
  \<^verbatim>\<open>remove_types<List, Exclude>\<close> with one excluded kind, lines 175-187: the specialisations
  for \<^verbatim>\<open>type_list<>\<close> and \<^verbatim>\<open>type_list<Head, Tail...>\<close>.
\<close>

fun remove_type :: "'k list \<Rightarrow> 'k \<Rightarrow> 'k list" where
  "remove_type [] exclude = []"
| "remove_type (head # tail) exclude =
     (if head = exclude then remove_type tail exclude else head # remove_type tail exclude)"

text \<open>
  \<^verbatim>\<open>remove_types<List, Exclude...>\<close>, lines 169-173 and 189-193: no excluded kind leaves the
  list; otherwise the first excluded kind is removed and the rest is removed from the result.
\<close>

fun remove_types :: "'k list \<Rightarrow> 'k list \<Rightarrow> 'k list" where
  "remove_types list [] = list"
| "remove_types list (head # tail) = remove_types (remove_type list head) tail"

text \<open>\<^verbatim>\<open>contains<T, U>\<close>, lines 198-212.\<close>

fun contains :: "'k \<Rightarrow> 'k list \<Rightarrow> bool" where
  "contains t [] = False"
| "contains t (head # tail) = (t = head \<or> contains t tail)"

text \<open>\<^verbatim>\<open>contains_all<T, U>\<close>, lines 220-234.\<close>

fun contains_all :: "'k list \<Rightarrow> 'k list \<Rightarrow> bool" where
  "contains_all [] u = True"
| "contains_all (head # tail) u = (contains head u \<and> contains_all tail u)"

text \<open>
  \<^verbatim>\<open>type_list<Types...>\<close> carries \<^verbatim>\<open>requires no_duplicates<Types...>\<close> (lines 65-67), so a pack
  with a repeated kind does not name a \<^verbatim>\<open>type_list\<close>. Inside a constraint that is a failed
  substitution: the constraint is not satisfied.
\<close>

definition type_list_concept :: "'k list \<Rightarrow> bool" where
  "type_list_concept types = has_no_duplicates types"

text \<open>\<^verbatim>\<open>contains_concept<T, U>\<close>, line 215.\<close>

definition contains_concept :: "'k \<Rightarrow> 'k list \<Rightarrow> bool" where
  "contains_concept t u = (type_list_concept u \<and> contains t u)"

text \<open>\<^verbatim>\<open>contains_all_concept<T, U>\<close>, line 238.\<close>

definition contains_all_concept :: "'k list \<Rightarrow> 'k list \<Rightarrow> bool" where
  "contains_all_concept t u = (type_list_concept t \<and> type_list_concept u \<and> contains_all t u)"

text \<open>
  \<^verbatim>\<open>internals::get<Target>(args...)\<close>, lines 246-273. The overload set has the one-argument
  base case \<^verbatim>\<open>get(Target head)\<close> and the constrained variadic template. No overload takes an
  empty pack. A lone argument of the target kind is returned by either overload. With two or
  more arguments only the variadic template has the arity, and its constraint
  \<^verbatim>\<open>contains_concept<Target, type_list<Head, Tail...>>\<close> must hold, which needs the argument
  kinds to form a \<^verbatim>\<open>type_list\<close>.

  A lone argument of another kind reaches the base case alone, which takes its parameter by
  value as \<^verbatim>\<open>Target\<close>: the call builds exactly when C++ converts the argument's type to
  \<^verbatim>\<open>Target\<close> implicitly. \<open>get\<close> is the overload set for kinds without implicit conversions
  between them, where that call is rejected; \<open>get_converting\<close> below takes the implicit
  conversions as a parameter. The two agree whenever the target kind is among the argument
  kinds or there is not exactly one argument (lemma \<open>get_converting_get\<close>), which covers
  every call the storage constructors make under their constraints.
\<close>

fun get :: "'k \<Rightarrow> ('k \<times> 'v) list \<Rightarrow> build_error + 'v" where
  "get target [] = Inl No_matching_function"
| "get target [(head_t, head)] =
     (if target = head_t then Inr head else Inl No_matching_function)"
| "get target ((head_t, head) # second # tail) =
     (if contains_concept target (head_t # map fst (second # tail))
      then (if target = head_t then Inr head else get target (second # tail))
      else Inl Constraint_not_satisfied)"

text \<open>
  The same overload set with implicit conversions: \<open>conv from to v\<close> is the value of kind
  \<open>to\<close> that \<open>v\<close> of kind \<open>from\<close> converts to, when C++ has such an implicit conversion.
\<close>

fun get_converting ::
  "('k \<Rightarrow> 'k \<Rightarrow> 'v \<Rightarrow> 'v option) \<Rightarrow> 'k \<Rightarrow> ('k \<times> 'v) list \<Rightarrow> build_error + 'v" where
  "get_converting conv target [] = Inl No_matching_function"
| "get_converting conv target [(head_t, head)] =
     (if target = head_t then Inr head
      else (case conv head_t target head of
              Some converted \<Rightarrow> Inr converted
            | None \<Rightarrow> Inl No_matching_function))"
| "get_converting conv target ((head_t, head) # second # tail) =
     (if contains_concept target (head_t # map fst (second # tail))
      then (if target = head_t then Inr head else get_converting conv target (second # tail))
      else Inl Constraint_not_satisfied)"

section \<open>Storage engine (class internals::storage)\<close>

text \<open>
  \<^verbatim>\<open>storage<type_list<Head, Tail...>>\<close> holds \<^verbatim>\<open>Head data_\<close> and \<^verbatim>\<open>storage<type_list<Tail...>> rest_\<close>
  (lines 483-486), \<^verbatim>\<open>storage<type_list<T>>\<close> holds \<^verbatim>\<open>T data_\<close> (line 371) and
  \<^verbatim>\<open>storage<type_list<>>\<close> is empty. A storage value is the chain of its slots, each with the
  kind it is declared for, in the order of the type list.
\<close>

type_synonym ('k, 'v) storage = "('k \<times> 'v) list"

text \<open>The type list a storage value is declared over.\<close>

definition types_of :: "('k, 'v) storage \<Rightarrow> 'k list" where
  "types_of s = map fst s"

text \<open>
  \<^verbatim>\<open>storage::get<U>()\<close>: the empty storage has no such member; the one-slot storage requires
  \<^verbatim>\<open>std::same_as<T, U>\<close> (lines 329-346); the general storage compares \<^verbatim>\<open>Head\<close> with \<^verbatim>\<open>U\<close> and
  otherwise asks \<^verbatim>\<open>rest_\<close> (lines 429-458).
\<close>

fun storage_get :: "'k \<Rightarrow> ('k, 'v) storage \<Rightarrow> build_error + 'v" where
  "storage_get u [] = Inl No_matching_function"
| "storage_get u [(t, data)] = (if t = u then Inr data else Inl Constraint_not_satisfied)"
| "storage_get u ((head, data) # second # rest) =
     (if head = u then Inr data else storage_get u (second # rest))"

text \<open>\<^verbatim>\<open>storage::get_head(a, b)\<close>, lines 357-368 and 469-480.\<close>

definition get_head :: "'k \<Rightarrow> ('k, 'v) storage \<Rightarrow> ('k, 'v) storage \<Rightarrow> build_error + 'v" where
  "get_head head a b =
     (if contains head (types_of a) then storage_get head a else storage_get head b)"

text \<open>
  The constructor \<^verbatim>\<open>storage(Args... args)\<close> of the class over the given type list (lines
  301-306 and 401-406). The empty storage has no constructor taking arguments and is only
  value-initialised. The defaulted default constructor of a non-empty storage, which leaves
  the slots uninitialised, is not part of this function.
\<close>

fun storage_args :: "'k list \<Rightarrow> ('k \<times> 'v) list \<Rightarrow> build_error + ('k, 'v) storage" where
  "storage_args [] args = (if args = [] then Inr [] else Inl No_matching_function)"
| "storage_args [t] args =
     (if contains_concept t (map fst args)
      then (case get t args of Inl e \<Rightarrow> Inl e | Inr data \<Rightarrow> Inr [(t, data)])
      else Inl Constraint_not_satisfied)"
| "storage_args (head # second # tail) args =
     (if \<not> type_list_concept (head # second # tail) then Inl Duplicate_types
      else if contains_all_concept (head # second # tail) (map fst args)
      then (case get head args of
              Inl e \<Rightarrow> Inl e
            | Inr data \<Rightarrow>
                (case storage_args (second # tail) args of
                   Inl e \<Rightarrow> Inl e
                 | Inr rest \<Rightarrow> Inr ((head, data) # rest)))
      else Inl Constraint_not_satisfied)"

text \<open>
  The constructor \<^verbatim>\<open>storage(storage<ListA> const &a, storage<ListB> const &b)\<close> of the class
  over the given type list (lines 315-320 and 415-420): \<^verbatim>\<open>data_(get_head(a, b)), rest_(a, b)\<close>.
  The empty storage has no such constructor.
\<close>

fun storage_merge ::
  "'k list \<Rightarrow> ('k, 'v) storage \<Rightarrow> ('k, 'v) storage \<Rightarrow> build_error + ('k, 'v) storage" where
  "storage_merge [] a b = Inl No_matching_function"
| "storage_merge [t] a b =
     (if contains_concept t (types_of a) \<or> contains_concept t (types_of b)
      then (case get_head t a b of Inl e \<Rightarrow> Inl e | Inr data \<Rightarrow> Inr [(t, data)])
      else Inl Constraint_not_satisfied)"
| "storage_merge (head # second # tail) a b =
     (if \<not> type_list_concept (head # second # tail) then Inl Duplicate_types
      else if contains_concept head (types_of a) \<or> contains_concept head (types_of b)
      then (case get_head head a b of
              Inl e \<Rightarrow> Inl e
            | Inr data \<Rightarrow>
                (case storage_merge (second # tail) a b of
                   Inl e \<Rightarrow> Inl e
                 | Inr rest \<Rightarrow> Inr ((head, data) # rest)))
      else Inl Constraint_not_satisfied)"

text \<open>
  The implicit copy constructor of a storage: member by member, \<^verbatim>\<open>data_\<close> from \<^verbatim>\<open>data_\<close> and
  \<^verbatim>\<open>rest_\<close> from \<^verbatim>\<open>rest_\<close>.
\<close>

fun storage_copy :: "('k, 'v) storage \<Rightarrow> ('k, 'v) storage" where
  "storage_copy [] = []"
| "storage_copy ((head, data) # rest) = (head, data) # storage_copy rest"

section \<open>Resource container (class shared_resources)\<close>

text \<open>
  \<^verbatim>\<open>shared_resources<List, Exclude...>\<close> has the single member \<^verbatim>\<open>storage_type data_\<close> (line 605).
  The template arguments \<^verbatim>\<open>List\<close> and \<^verbatim>\<open>Exclude...\<close> of the class under construction are
  explicit arguments of the constructors below.
\<close>

datatype ('k, 'v) shared_resources = Shared_resources (data: "('k, 'v) storage")

text \<open>The member alias \<^verbatim>\<open>list\<close>, line 520: the effective type list.\<close>

definition effective_list :: "'k list \<Rightarrow> 'k list \<Rightarrow> 'k list" where
  "effective_list List Exclude = remove_types List Exclude"

text \<open>\<^verbatim>\<open>shared_resources(Args... args)\<close>, lines 533-538. The class needs a \<^verbatim>\<open>type_list\<close>.\<close>

definition shared_resources_args ::
  "'k list \<Rightarrow> 'k list \<Rightarrow> ('k \<times> 'v) list \<Rightarrow> build_error + ('k, 'v) shared_resources" where
  "shared_resources_args List Exclude args =
     (if \<not> type_list_concept List then Inl Duplicate_types
      else if contains_all_concept (effective_list List Exclude) (map fst args)
      then (case storage_args (effective_list List Exclude) args of
              Inl e \<Rightarrow> Inl e
            | Inr s \<Rightarrow> Inr (Shared_resources s))
      else Inl Constraint_not_satisfied)"

text \<open>
  The defaulted copy constructor, line 544: it copies the member \<^verbatim>\<open>data_\<close> with the implicit
  copy constructor of the storage.
\<close>

definition shared_resources_copy :: "('k, 'v) shared_resources \<Rightarrow> ('k, 'v) shared_resources" where
  "shared_resources_copy other = Shared_resources (storage_copy (data other))"

text \<open>
  \<^verbatim>\<open>shared_resources(shared_resources<OtherList, OtherExclude...> const &other)\<close>, lines
  558-563: requires the two effective type lists to be the same type, and copies \<^verbatim>\<open>data_\<close>.
\<close>

definition shared_resources_same ::
  "'k list \<Rightarrow> 'k list \<Rightarrow> ('k, 'v) shared_resources \<Rightarrow> build_error + ('k, 'v) shared_resources" where
  "shared_resources_same List Exclude other =
     (if \<not> type_list_concept List then Inl Duplicate_types
      else if effective_list List Exclude = types_of (data other)
      then Inr (Shared_resources (data other))
      else Inl Constraint_not_satisfied)"

text \<open>
  \<^verbatim>\<open>create_storage(other, args...)\<close>, lines 615-620: a storage \<^verbatim>\<open>add\<close> over the kinds of the
  extra arguments, then \<^verbatim>\<open>storage_type(other, add)\<close>. With no extra argument \<^verbatim>\<open>add\<close> is the
  value-initialised empty storage.
\<close>

definition create_storage ::
  "'k list \<Rightarrow> ('k, 'v) storage \<Rightarrow> ('k \<times> 'v) list \<Rightarrow> build_error + ('k, 'v) storage" where
  "create_storage list other args =
     (case storage_args (map fst args) args of
        Inl e \<Rightarrow> Inl e
      | Inr add \<Rightarrow> storage_merge list other add)"

text \<open>\<^verbatim>\<open>shared_resources(Other const &other, Args const &...args)\<close>, lines 572-576.\<close>

definition shared_resources_extend ::
  "'k list \<Rightarrow> 'k list \<Rightarrow> ('k, 'v) shared_resources \<Rightarrow> ('k \<times> 'v) list
     \<Rightarrow> build_error + ('k, 'v) shared_resources" where
  "shared_resources_extend List Exclude other args =
     (if \<not> type_list_concept List then Inl Duplicate_types
      else (case create_storage (effective_list List Exclude) (data other) args of
              Inl e \<Rightarrow> Inl e
            | Inr s \<Rightarrow> Inr (Shared_resources s)))"

text \<open>
  Construction from one container and nothing else (a conversion). When the effective type
  lists are the same type the copy constructor or the constructor of lines 558-563 is the
  best match; otherwise that one is not viable and the constructor of lines 572-576 is
  taken with an empty pack of extra arguments.
\<close>

definition shared_resources_other ::
  "'k list \<Rightarrow> 'k list \<Rightarrow> ('k, 'v) shared_resources \<Rightarrow> build_error + ('k, 'v) shared_resources" where
  "shared_resources_other List Exclude other =
     (if effective_list List Exclude = types_of (data other)
      then shared_resources_same List Exclude other
      else shared_resources_extend List Exclude other [])"

text \<open>\<^verbatim>\<open>shared_resources::get<U>()\<close>, lines 583-598.\<close>

definition shared_resources_get :: "'k \<Rightarrow> ('k, 'v) shared_resources \<Rightarrow> build_error + 'v" where
  "shared_resources_get u c = storage_get u (data c)"

section \<open>Memory\<close>

text \<open>
  A location is a variable of the caller or the \<^verbatim>\<open>data_\<close> member of one kind inside the
  container object with the given identity. Distinct objects have distinct members. A
  reference \<^verbatim>\<open>U &\<close> is a location; reading it is applying the memory, assigning through it
  is a function update.
\<close>

datatype 'k loc = Var nat | Member nat 'k

type_synonym ('k, 'v) memory = "'k loc \<Rightarrow> 'v"

text \<open>The slots of the container object \<open>c\<close> declared over \<open>list\<close>, as locations.\<close>

definition members :: "nat \<Rightarrow> 'k list \<Rightarrow> ('k, 'k loc) storage" where
  "members c list = map (\<lambda>k. (k, Member c k)) list"

text \<open>The value a container object holds in a memory.\<close>

definition fetch :: "('k, 'v) memory \<Rightarrow> nat \<Rightarrow> 'k list \<Rightarrow> ('k, 'v) shared_resources" where
  "fetch m c list = Shared_resources (map (\<lambda>k. (k, m (Member c k))) list)"

text \<open>Initialising the members of the object \<open>c\<close> with a constructed value.\<close>

fun init_members :: "nat \<Rightarrow> ('k, 'v) storage \<Rightarrow> ('k, 'v) memory \<Rightarrow> ('k, 'v) memory" where
  "init_members c [] m = m"
| "init_members c ((k, v) # rest) m = init_members c rest (m(Member c k := v))"

text \<open>The values of argument expressions that name locations.\<close>

definition read_args :: "('k, 'v) memory \<Rightarrow> ('k \<times> 'k loc) list \<Rightarrow> ('k \<times> 'v) list" where
  "read_args m args = map (\<lambda>(k, l). (k, m l)) args"

text \<open>
  Declaring the container object \<open>c\<close> of type \<^verbatim>\<open>shared_resources<List, Exclude...>\<close> from
  arguments (lines 533-538, arguments passed by value), and from another container object
  \<open>c0\<close> declared over \<open>list0\<close> plus extra arguments (lines 572-576, all passed by const
  reference).
\<close>

definition new_shared_resources ::
  "nat \<Rightarrow> 'k list \<Rightarrow> 'k list \<Rightarrow> ('k \<times> 'k loc) list \<Rightarrow> ('k, 'v) memory
     \<Rightarrow> build_error + ('k, 'v) memory" where
  "new_shared_resources c List Exclude args m =
     (case shared_resources_args List Exclude (read_args m args) of
        Inl e \<Rightarrow> Inl e
      | Inr r \<Rightarrow> Inr (init_members c (data r) m))"

definition new_shared_resources_extend ::
  "nat \<Rightarrow> 'k list \<Rightarrow> 'k list \<Rightarrow> nat \<Rightarrow> 'k list \<Rightarrow> ('k \<times> 'k loc) list \<Rightarrow> ('k, 'v) memory
     \<Rightarrow> build_error + ('k, 'v) memory" where
  "new_shared_resources_extend c List Exclude c0 list0 args m =
     (case shared_resources_extend List Exclude (fetch m c0 list0) (read_args m args) of
        Inl e \<Rightarrow> Inl e
      | Inr r \<Rightarrow> Inr (init_members c (data r) m))"

text \<open>
  \<^verbatim>\<open>get<U>()\<close> on the container object \<open>c\<close> declared over \<open>list\<close>: the reference to the
  member, found as \<^verbatim>\<open>storage::get\<close> finds it.
\<close>

definition shared_resources_ref :: "'k \<Rightarrow> nat \<Rightarrow> 'k list \<Rightarrow> build_error + 'k loc" where
  "shared_resources_ref u c list = storage_get u (members c list)"

section \<open>Reference container (class shared_references)\<close>

text \<open>
  \<^verbatim>\<open>std::reference_wrapper<T>\<close> is a kind of its own for every kind \<^verbatim>\<open>T\<close>; its value is the
  location it refers to.
\<close>

datatype 'k wrapped = reference_wrapper 'k

text \<open>\<^verbatim>\<open>wrap_with_reference<type_list<Types...>>\<close>, lines 152-159.\<close>

definition wrap_with_reference :: "'k list \<Rightarrow> 'k wrapped list" where
  "wrap_with_reference types = map reference_wrapper types"

text \<open>
  \<^verbatim>\<open>shared_references<List, Exclude...>\<close> has the single member \<^verbatim>\<open>data_\<close> (line 702), a
  \<^verbatim>\<open>shared_resources\<close> over the wrapped list and the wrapped excluded kinds. The alias
  \<^verbatim>\<open>wrapped_exclude_list\<close> (line 699) names \<^verbatim>\<open>type_list<Exclude...>\<close>, so the excluded kinds must
  be free of duplicates too.
\<close>

datatype ('k, 'l) shared_references = Shared_references (refs: "('k wrapped, 'l) shared_resources")

text \<open>\<^verbatim>\<open>std::reference_wrapper(args)...\<close>: each argument, an lvalue, wrapped.\<close>

definition wrap_args :: "('k \<times> 'l) list \<Rightarrow> ('k wrapped \<times> 'l) list" where
  "wrap_args args = map (\<lambda>(k, l). (reference_wrapper k, l)) args"

text \<open>\<^verbatim>\<open>shared_references(Args &...args)\<close>, lines 663-668.\<close>

definition shared_references_args ::
  "'k list \<Rightarrow> 'k list \<Rightarrow> ('k \<times> 'l) list \<Rightarrow> build_error + ('k, 'l) shared_references" where
  "shared_references_args List Exclude args =
     (if \<not> (type_list_concept List \<and> type_list_concept Exclude) then Inl Duplicate_types
      else if contains_all_concept (effective_list List Exclude) (map fst args)
      then (case shared_resources_args (wrap_with_reference List) (wrap_with_reference Exclude)
                  (wrap_args args) of
              Inl e \<Rightarrow> Inl e
            | Inr d \<Rightarrow> Inr (Shared_references d))
      else Inl Constraint_not_satisfied)"

text \<open>The implicit copy constructor: it copies the member \<^verbatim>\<open>data_\<close>.\<close>

definition shared_references_copy :: "('k, 'l) shared_references \<Rightarrow> ('k, 'l) shared_references" where
  "shared_references_copy other = Shared_references (shared_resources_copy (refs other))"

text \<open>
  \<^verbatim>\<open>shared_references::get<U>()\<close>, lines 688-692: the wrapper stored for
  \<^verbatim>\<open>std::reference_wrapper<U>\<close>, and \<^verbatim>\<open>.get()\<close> on it, which is the location it refers to.
\<close>

definition shared_references_get :: "'k \<Rightarrow> ('k, 'l) shared_references \<Rightarrow> build_error + 'l" where
  "shared_references_get u r = shared_resources_get (reference_wrapper u) (refs r)"

text \<open>
  \<^verbatim>\<open>shared_references(Other const &other, Args &...args)\<close>, lines 677-681:
  \<^verbatim>\<open>data_(other.data_, std::reference_wrapper(args)...)\<close>. The member is a \<^verbatim>\<open>shared_resources\<close>, so
  this is a construction of a \<^verbatim>\<open>shared_resources\<close> from the container \<^verbatim>\<open>other.data_\<close> and the
  wrapped arguments: with extra arguments the constructor of lines 572-576, with none the
  construction from one container alone.
\<close>

definition shared_references_extend ::
  "'k list \<Rightarrow> 'k list \<Rightarrow> ('k, 'l) shared_references \<Rightarrow> ('k \<times> 'l) list
     \<Rightarrow> build_error + ('k, 'l) shared_references" where
  "shared_references_extend List Exclude other args =
     (if \<not> (type_list_concept List \<and> type_list_concept Exclude) then Inl Duplicate_types
      else (case (if args = []
                  then shared_resources_other (wrap_with_reference List)
                         (wrap_with_reference Exclude) (refs other)
                  else shared_resources_extend (wrap_with_reference List)
                         (wrap_with_reference Exclude) (refs other) (wrap_args args)) of
              Inl e \<Rightarrow> Inl e
            | Inr d \<Rightarrow> Inr (Shared_references d)))"

section \<open>Every reference container and the variables it aliases\<close>

text \<open>
  The variable a reference container over \<open>list\<close> aliases for each kind, by the way the
  container was made. Built from lvalues, it aliases for a kind of its effective set the
  argument of that kind. Built from another reference container and extra lvalues, it
  aliases for a kind of its effective set what the other container aliases for it, and the
  extra argument of that kind when the other container has none.
\<close>

definition aliases_args :: "'k list \<Rightarrow> ('k \<times> 'l) list \<Rightarrow> ('k \<rightharpoonup> 'l)" where
  "aliases_args list args = (\<lambda>k. if k \<in> set list then map_of args k else None)"

definition aliases_extend :: "'k list \<Rightarrow> ('k \<rightharpoonup> 'l) \<Rightarrow> ('k \<times> 'l) list \<Rightarrow> ('k \<rightharpoonup> 'l)" where
  "aliases_extend list al0 args =
     (\<lambda>k. if k \<in> set list
          then (case al0 k of Some x \<Rightarrow> Some x | None \<Rightarrow> map_of args k)
          else None)"

text \<open>
  The reference containers a program can have: \<open>reference_container list al r\<close> holds when
  \<open>r\<close> is a container with effective list \<open>list\<close> made by the constructors of the class (lines
  663-668, lines 677-681, the implicit copy constructor), starting from lvalues, and
  \<open>al\<close> gives the variable it aliases for each kind.
\<close>

inductive reference_container ::
  "'k list \<Rightarrow> ('k \<rightharpoonup> 'l) \<Rightarrow> ('k, 'l) shared_references \<Rightarrow> bool" where
  from_args:
    "shared_references_args List Exclude args = Inr r \<Longrightarrow>
     reference_container (effective_list List Exclude)
       (aliases_args (effective_list List Exclude) args) r"
| from_other:
    "reference_container list0 al0 other \<Longrightarrow>
     shared_references_extend List Exclude other args = Inr r \<Longrightarrow>
     reference_container (effective_list List Exclude)
       (aliases_extend (effective_list List Exclude) al0 args) r"
| from_copy:
    "reference_container list al r \<Longrightarrow>
     reference_container list al (shared_references_copy r)"

text \<open>
  What the proofs keep of every reference container: its effective list has no repeated
  kind, its storage is declared over the wrapped list, and the variable it aliases for a
  kind is the location stored in the slot of the wrapped kind.
\<close>

definition aliasing :: "'k list \<Rightarrow> ('k \<rightharpoonup> 'l) \<Rightarrow> ('k, 'l) shared_references \<Rightarrow> bool" where
  "aliasing list al r =
     (distinct list \<and> types_of (data (refs r)) = wrap_with_reference list
      \<and> (\<forall>k. al k = map_of (data (refs r)) (reference_wrapper k)))"

section \<open>The merge as the specification words it\<close>

text \<open>
  "For each target kind, if A's set contains it, take A's value; else take it from B":
  the storage over \<open>list\<close> whose slot for a kind holds the value \<open>a\<close> has for it when
  \<open>a\<close> has one, and the value \<open>b\<close> has for it otherwise.
\<close>

definition merged :: "'k list \<Rightarrow> ('k, 'v) storage \<Rightarrow> ('k, 'v) storage \<Rightarrow> ('k, 'v) storage" where
  "merged list a b =
     map (\<lambda>k. (k, the (if k \<in> fst ` set a then map_of a k else map_of b k))) list"

section \<open>Facts about the set algebra\<close>

lemma has_no_duplicates_distinct: "has_no_duplicates types = distinct types"
  by (induction types rule: has_no_duplicates.induct) auto

lemma contains_set: "contains t u = (t \<in> set u)"
  by (induction u) auto

lemma contains_all_set: "contains_all t u = (set t \<subseteq> set u)"
  by (induction t) (auto simp: contains_set)

lemma remove_type_filter: "remove_type list exclude = filter (\<lambda>k. k \<noteq> exclude) list"
  by (induction list) auto

lemma remove_types_foldl: "remove_types list excl = foldl remove_type list excl"
  by (induction excl arbitrary: list) auto

lemma remove_types_filter: "remove_types list excl = filter (\<lambda>k. k \<notin> set excl) list"
proof (induction excl arbitrary: list)
  case Nil
  show ?case by simp
next
  case (Cons e excl)
  have "remove_types list (e # excl) = filter (\<lambda>k. k \<notin> set excl) (filter (\<lambda>k. k \<noteq> e) list)"
    by (simp add: Cons.IH remove_type_filter)
  also have "\<dots> = filter (\<lambda>k. k \<notin> set (e # excl)) list"
    by (induction list) auto
  finally show ?case .
qed

lemma set_remove_types: "set (remove_types list excl) = set list - set excl"
  by (auto simp: remove_types_filter)

lemma distinct_remove_types: "distinct list \<Longrightarrow> distinct (remove_types list excl)"
  by (simp add: remove_types_filter)

section \<open>Facts about lookup and storage\<close>

lemma type_list_distinct: "type_list_concept types = distinct types"
  by (simp add: type_list_concept_def has_no_duplicates_distinct)

lemma contains_concept_set: "contains_concept t u = (distinct u \<and> t \<in> set u)"
  by (simp add: contains_concept_def type_list_distinct contains_set)

lemma contains_all_concept_set:
  "contains_all_concept t u = (distinct t \<and> distinct u \<and> set t \<subseteq> set u)"
  by (simp add: contains_all_concept_def type_list_distinct contains_all_set)

lemma get_Inr_map_of: "get target args = Inr v \<Longrightarrow> map_of args target = Some v"
  by (induction target args rule: get.induct) (auto split: if_splits)

lemma get_map_of:
  "distinct (map fst args) \<Longrightarrow> target \<in> fst ` set args \<Longrightarrow>
   get target args = Inr (the (map_of args target))"
proof (induction target args rule: get.induct)
  case (1 target)
  then show ?case by simp
next
  case (2 target head_t head)
  then show ?case by simp
next
  case (3 target head_t head second tail)
  then show ?case
    by (cases "target = head_t") (auto simp: contains_concept_set)
qed

lemma get_isl_duplicates:
  "\<not> distinct (map fst args) \<Longrightarrow> get target args = Inl Constraint_not_satisfied"
  by (induction target args rule: get.induct) (auto simp: contains_concept_set)

lemma storage_get_map_of: "(storage_get u s = Inr v) = (map_of s u = Some v)"
  by (induction u s rule: storage_get.induct) auto

lemma storage_get_the:
  "u \<in> fst ` set s \<Longrightarrow> storage_get u s = Inr (the (map_of s u))"
  by (metis storage_get_map_of map_of_eq_None_iff option.exhaust_sel)

lemma storage_args_Inr:
  "storage_args list args = Inr s \<Longrightarrow> s = map (\<lambda>k. (k, the (map_of args k))) list"
proof (induction list args arbitrary: s rule: storage_args.induct)
  case (1 args)
  then show ?case by (simp split: if_splits)
next
  case (2 t args)
  then show ?case by (auto split: if_splits sum.splits dest: get_Inr_map_of)
next
  case (3 head second tail args)
  then show ?case by (auto split: if_splits sum.splits dest: get_Inr_map_of)
qed

lemma storage_args_total:
  "distinct list \<Longrightarrow> distinct (map fst args) \<Longrightarrow> set list \<subseteq> fst ` set args \<Longrightarrow> list \<noteq> [] \<Longrightarrow>
   storage_args list args = Inr (map (\<lambda>k. (k, the (map_of args k))) list)"
proof (induction list args rule: storage_args.induct)
  case (1 args)
  then show ?case by simp
next
  case (2 t args)
  then show ?case by (simp add: contains_concept_set get_map_of)
next
  case (3 head second tail args)
  then show ?case
    by (simp add: contains_all_concept_set type_list_distinct get_map_of)
qed

lemma get_head_Inr:
  "get_head head a b = Inr v \<Longrightarrow>
   v = the (if head \<in> fst ` set a then map_of a head else map_of b head)"
  by (auto simp: get_head_def types_of_def contains_set storage_get_map_of split: if_splits)

lemma get_head_total:
  assumes "head \<in> fst ` set a \<union> fst ` set b"
  shows "get_head head a b =
    Inr (the (if head \<in> fst ` set a then map_of a head else map_of b head))"
proof (cases "head \<in> fst ` set a")
  case True
  then show ?thesis
    by (simp add: get_head_def types_of_def contains_set storage_get_the)
next
  case False
  with assms have "head \<in> fst ` set b" by blast
  with False show ?thesis
    by (simp add: get_head_def types_of_def contains_set storage_get_the)
qed

lemma storage_merge_Inr:
  "storage_merge list a b = Inr s \<Longrightarrow> s = merged list a b"
proof (induction list a b arbitrary: s rule: storage_merge.induct)
  case (1 a b)
  then show ?case by simp
next
  case (2 t a b)
  then obtain v where "get_head t a b = Inr v" "s = [(t, v)]"
    by (auto split: if_splits sum.splits)
  with get_head_Inr [of t a b v] show ?case
    by (simp add: merged_def)
next
  case (3 head second tail a b)
  from "3.prems" obtain v rest where v: "get_head head a b = Inr v"
    and rest: "storage_merge (second # tail) a b = Inr rest"
    and s: "s = (head, v) # rest" and c: "type_list_concept (head # second # tail)"
      "contains_concept head (types_of a) \<or> contains_concept head (types_of b)"
    by (auto split: if_splits sum.splits)
  from "3.IH" [OF _ c(2) v rest] c(1) have "rest = merged (second # tail) a b" by simp
  with s get_head_Inr [OF v] show ?case
    by (simp add: merged_def)
qed

lemma storage_merge_Inr_covered:
  "storage_merge list a b = Inr s \<Longrightarrow>
   list \<noteq> [] \<and> distinct list \<and> set list \<subseteq> set (types_of a) \<union> set (types_of b)"
proof (induction list a b arbitrary: s rule: storage_merge.induct)
  case (1 a b)
  then show ?case by simp
next
  case (2 t a b)
  then show ?case by (auto simp: contains_concept_set split: if_splits)
next
  case (3 head second tail a b)
  then show ?case
    by (auto simp: contains_concept_set type_list_distinct split: if_splits sum.splits)
qed

lemma storage_merge_total:
  "distinct list \<Longrightarrow> list \<noteq> [] \<Longrightarrow> distinct (types_of a) \<Longrightarrow> distinct (types_of b) \<Longrightarrow>
   set list \<subseteq> set (types_of a) \<union> set (types_of b) \<Longrightarrow>
   storage_merge list a b = Inr (merged list a b)"
proof (induction list a b rule: storage_merge.induct)
  case (1 a b)
  then show ?case by simp
next
  case (2 t a b)
  then have "t \<in> fst ` set a \<union> fst ` set b" by (auto simp: types_of_def)
  from get_head_total [OF this] 2 show ?case
    by (auto simp: contains_concept_set merged_def)
next
  case (3 head second tail a b)
  then have "head \<in> fst ` set a \<union> fst ` set b" by (auto simp: types_of_def)
  from get_head_total [OF this] 3 show ?case
    by (auto simp: contains_concept_set type_list_distinct merged_def)
qed

lemma types_of_merged: "types_of (merged list a b) = list"
  by (simp add: merged_def types_of_def comp_def)

lemma map_of_keyed: "map_of (map (\<lambda>k. (k, f k)) list) k = (if k \<in> set list then Some (f k) else None)"
  by (induction list) auto

lemma storage_get_merged:
  assumes "k \<in> set list" "k \<in> fst ` set a \<union> fst ` set b"
  shows "storage_get k (merged list a b) =
    (if contains k (types_of a) then storage_get k a else storage_get k b)"
proof -
  have m: "storage_get k (merged list a b) =
      Inr (the (if k \<in> fst ` set a then map_of a k else map_of b k))"
    using assms(1) by (simp add: storage_get_map_of merged_def map_of_keyed)
  show ?thesis
  proof (cases "k \<in> fst ` set a")
    case True
    with m show ?thesis by (simp add: contains_set types_of_def storage_get_the)
  next
    case False
    with assms(2) have "k \<in> fst ` set b" by blast
    with False m show ?thesis by (simp add: contains_set types_of_def storage_get_the)
  qed
qed

lemma keyed_self:
  "distinct (map fst args) \<Longrightarrow> map (\<lambda>k. (k, the (map_of args k))) (map fst args) = args"
proof (induction args)
  case Nil
  show ?case by simp
next
  case (Cons a args)
  obtain k v where a: "a = (k, v)" by (cases a)
  from Cons.prems a have k: "k \<notin> fst ` set args" and d: "distinct (map fst args)" by auto
  have "map (\<lambda>k'. (k', the (map_of ((k, v) # args) k'))) (map fst args)
      = map (\<lambda>k'. (k', the (map_of args k'))) (map fst args)"
    using k by (intro map_cong) auto
  with Cons.IH [OF d] a show ?case by simp
qed

lemma storage_args_self:
  assumes "distinct (map fst args)"
  shows "storage_args (map fst args) args = Inr args"
proof (cases "args = []")
  case True
  then show ?thesis by simp
next
  case False
  with assms storage_args_total [of "map fst args" args] keyed_self [OF assms]
  show ?thesis by simp
qed

lemma map_of_perm:
  assumes "mset args' = mset args" "distinct (map fst args)"
  shows "map_of args' = map_of args"
proof -
  have "mset (map fst args') = mset (map fst args)" using assms(1) by (metis mset_map)
  then have d: "distinct (map fst args')" using assms(2) by (metis mset_eq_imp_distinct_iff)
  have "set args' = set args" using assms(1) by (metis mset_eq_setD)
  with d assms(2) show ?thesis by (simp add: map_of_inject_set)
qed

section \<open>Facts about the containers and the memory\<close>

lemma create_storage_Inr:
  assumes "create_storage list other args = Inr s"
  shows "s = merged list other args \<and> distinct (map fst args) \<and> list \<noteq> [] \<and> distinct list
    \<and> set list \<subseteq> set (types_of other) \<union> fst ` set args"
proof -
  from assms obtain add where add: "storage_args (map fst args) args = Inr add"
    and m: "storage_merge list other add = Inr s"
    by (auto simp: create_storage_def split: sum.splits)
  have d: "distinct (map fst args)"
  proof (rule ccontr)
    assume nd: "\<not> distinct (map fst args)"
    then obtain k1 k2 ks where "map fst args = k1 # k2 # ks"
      by (cases "map fst args" rule: remdups_adj.cases) auto
    with nd add show False by (simp add: type_list_distinct)
  qed
  from storage_args_self [OF d] add have "add = args" by simp
  with m storage_merge_Inr [OF m] storage_merge_Inr_covered [OF m] d show ?thesis
    by (simp add: types_of_def)
qed

lemma create_storage_total:
  assumes "distinct list" "list \<noteq> []" "distinct (types_of other)" "distinct (map fst args)"
    "set list \<subseteq> set (types_of other) \<union> fst ` set args"
  shows "create_storage list other args = Inr (merged list other args)"
proof -
  have "storage_merge list other args = Inr (merged list other args)"
    using assms by (intro storage_merge_total) (simp_all add: types_of_def)
  with storage_args_self [OF assms(4)] show ?thesis by (simp add: create_storage_def)
qed

lemma distinct_effective_list: "type_list_concept List \<Longrightarrow> distinct (effective_list List Exclude)"
  by (simp add: effective_list_def type_list_distinct distinct_remove_types)

lemma shared_resources_other_Inr_iff:
  assumes "type_list_concept List" and "type_list_concept (types_of (data other))"
  shows "(\<exists>c. shared_resources_other List Exclude other = Inr c) =
    (effective_list List Exclude = types_of (data other)
     \<or> effective_list List Exclude \<noteq> []
        \<and> set (effective_list List Exclude) \<subseteq> set (types_of (data other)))"
proof (cases "effective_list List Exclude = types_of (data other)")
  case True
  with assms(1) show ?thesis
    by (simp add: shared_resources_other_def shared_resources_same_def)
next
  case False
  let ?list = "effective_list List Exclude"
  have dl: "distinct ?list" using assms(1) by (rule distinct_effective_list)
  have dA: "distinct (types_of (data other))" using assms(2) by (simp add: type_list_distinct)
  have eq: "shared_resources_other List Exclude other =
      (case create_storage ?list (data other) [] of
         Inl e \<Rightarrow> Inl e | Inr s \<Rightarrow> Inr (Shared_resources s))"
    using False assms(1) by (simp add: shared_resources_other_def shared_resources_extend_def)
  show ?thesis
  proof
    assume "\<exists>c. shared_resources_other List Exclude other = Inr c"
    with eq obtain s where "create_storage ?list (data other) [] = Inr s"
      by (auto split: sum.splits)
    from create_storage_Inr [OF this] show "?list = types_of (data other)
        \<or> ?list \<noteq> [] \<and> set ?list \<subseteq> set (types_of (data other))"
      by simp
  next
    assume "?list = types_of (data other)
        \<or> ?list \<noteq> [] \<and> set ?list \<subseteq> set (types_of (data other))"
    with False have ne: "?list \<noteq> []" and sub: "set ?list \<subseteq> set (types_of (data other))"
      by simp_all
    from create_storage_total [OF dl ne dA, of "[]"] sub
    have "create_storage ?list (data other) [] = Inr (merged ?list (data other) [])" by simp
    with eq show "\<exists>c. shared_resources_other List Exclude other = Inr c" by simp
  qed
qed

lemma map_of_find:
  "map_of args t = Some v \<Longrightarrow> find (\<lambda>a. fst a = t) args = Some (t, v)"
  by (induction args) (auto split: if_splits)

lemma wrap_effective_list:
  "effective_list (wrap_with_reference List) (wrap_with_reference Exclude)
     = wrap_with_reference (effective_list List Exclude)"
proof -
  have "(\<lambda>k. k \<notin> reference_wrapper ` set Exclude) \<circ> reference_wrapper = (\<lambda>k. k \<notin> set Exclude)"
    by (auto simp: fun_eq_iff)
  then show ?thesis
    by (simp add: effective_list_def wrap_with_reference_def remove_types_filter filter_map)
qed

lemma distinct_wrap: "distinct (wrap_with_reference types) = distinct types"
  by (simp add: wrap_with_reference_def distinct_map inj_on_def)

lemma fst_wrap_args: "map fst (wrap_args args) = wrap_with_reference (map fst args)"
  by (simp add: wrap_args_def wrap_with_reference_def split_def)

lemma map_of_wrap_args: "map_of (wrap_args args) (reference_wrapper k) = map_of args k"
  by (induction args) (auto simp: wrap_args_def)

lemma shared_references_args_total:
  assumes "type_list_concept List" and "type_list_concept Exclude"
    and "type_list_concept (map fst args)"
    and "contains_all (effective_list List Exclude) (map fst args)"
    and "effective_list List Exclude \<noteq> []"
  shows "shared_references_args List Exclude args =
    Inr (Shared_references (Shared_resources
      (map (\<lambda>k. (k, the (map_of (wrap_args args) k)))
         (wrap_with_reference (effective_list List Exclude)))))"
proof -
  let ?list = "effective_list List Exclude"
  have dl: "distinct ?list" using assms(1) by (rule distinct_effective_list)
  have da: "distinct (map fst args)" using assms(3) by (simp add: type_list_distinct)
  have sub: "set ?list \<subseteq> fst ` set args" using assms(4) by (simp add: contains_all_set)
  have wl: "distinct (wrap_with_reference ?list)" using dl by (simp add: distinct_wrap)
  have wa: "distinct (map fst (wrap_args args))"
    using da by (simp add: fst_wrap_args distinct_wrap)
  have wsub: "set (wrap_with_reference ?list) \<subseteq> fst ` set (wrap_args args)"
  proof -
    have "set (wrap_with_reference ?list) \<subseteq> set (wrap_with_reference (map fst args))"
      using sub by (auto simp: wrap_with_reference_def)
    then show ?thesis by (simp add: fst_wrap_args [symmetric])
  qed
  have wne: "wrap_with_reference ?list \<noteq> []"
    using assms(5) by (simp add: wrap_with_reference_def)
  have "shared_resources_args (wrap_with_reference List) (wrap_with_reference Exclude)
      (wrap_args args)
    = Inr (Shared_resources (map (\<lambda>k. (k, the (map_of (wrap_args args) k)))
        (wrap_with_reference ?list)))"
    using assms(1) wl wa wsub storage_args_total [OF wl wa wsub wne]
    by (simp add: shared_resources_args_def wrap_effective_list contains_all_concept_set
        type_list_distinct distinct_wrap)
  with assms(1,2) dl da sub show ?thesis
    by (simp add: shared_references_args_def contains_all_concept_set)
qed

lemma init_members_other:
  "(\<forall>k. l \<noteq> Member c k) \<Longrightarrow> init_members c s m l = m l"
  by (induction c s m rule: init_members.induct) auto

lemma init_members_absent:
  "k \<notin> fst ` set s \<Longrightarrow> init_members c s m (Member c k) = m (Member c k)"
  by (induction c s m rule: init_members.induct) auto

lemma init_members_member:
  "distinct (map fst s) \<Longrightarrow> map_of s k = Some v \<Longrightarrow> init_members c s m (Member c k) = v"
proof (induction s arbitrary: m)
  case Nil
  then show ?case by simp
next
  case (Cons a rest)
  obtain k' v' where a: "a = (k', v')" by (cases a)
  show ?case
  proof (cases "k' = k")
    case True
    with Cons.prems a show ?thesis by (simp add: init_members_absent)
  next
    case False
    with Cons.prems a have "distinct (map fst rest)" "map_of rest k = Some v" by simp_all
    then have "init_members c rest (m(Member c k' := v')) (Member c k) = v" by (rule Cons.IH)
    with a show ?thesis by simp
  qed
qed

lemma shared_resources_ref_member:
  "k \<in> set list \<Longrightarrow> shared_resources_ref k c list = Inr (Member c k)"
  by (simp add: shared_resources_ref_def members_def storage_get_map_of map_of_keyed)

lemma map_of_read_args: "map_of (read_args m args) k = map_option m (map_of args k)"
  by (induction args) (auto simp: read_args_def)

lemma fst_read_args: "map fst (read_args m args) = map fst args"
  by (simp add: read_args_def split_def)

section \<open>Facts about conversions, copies and reference containers\<close>

lemma get_converting_present:
  "contains target (map fst args) \<Longrightarrow> get_converting conv target args = get target args"
proof (induction conv target args rule: get_converting.induct)
  case (1 conv target)
  then show ?case by simp
next
  case (2 conv target head_t head)
  then show ?case by simp
next
  case (3 conv target head_t head second tail)
  show ?case
  proof (cases "contains_concept target (head_t # map fst (second # tail)) \<and> target \<noteq> head_t")
    case True
    then have "contains target (map fst (second # tail))"
      by (auto simp: contains_concept_set contains_set)
    with True "3.IH" show ?thesis by simp
  next
    case False
    then show ?thesis by auto
  qed
qed

lemma get_converting_get:
  assumes "contains target (map fst args) \<or> length args \<noteq> 1"
  shows "get_converting conv target args = get target args"
proof (cases "contains target (map fst args)")
  case True
  then show ?thesis by (rule get_converting_present)
next
  case False
  with assms have len: "length args \<noteq> 1" by simp
  show ?thesis
  proof (cases args rule: remdups_adj.cases)
    case 1
    then show ?thesis by simp
  next
    case (2 x)
    with len show ?thesis by simp
  next
    case (3 x y xs)
    obtain head_t head where x: "x = (head_t, head)" by (cases x)
    from False 3 x have "\<not> contains_concept target (head_t # map fst (y # xs))"
      by (simp add: contains_concept_def)
    with 3 x show ?thesis by simp
  qed
qed

lemma storage_copy_id: "storage_copy s = s"
  by (induction s rule: storage_copy.induct) auto

lemma shared_references_copy_id: "shared_references_copy r = r"
  by (cases r) (simp add: shared_references_copy_def shared_resources_copy_def storage_copy_id)

lemma map_of_merged:
  "map_of (merged list a b) k =
     (if k \<in> set list
      then Some (the (if k \<in> fst ` set a then map_of a k else map_of b k))
      else None)"
  by (simp add: merged_def map_of_keyed)

lemma in_wrap: "(reference_wrapper k \<in> set (wrap_with_reference list)) = (k \<in> set list)"
  by (auto simp: wrap_with_reference_def)

lemma wrap_inject: "(wrap_with_reference a = wrap_with_reference b) = (a = b)"
  by (simp add: wrap_with_reference_def inj_map_eq_map inj_on_def)

lemma in_fst_wrap_args:
  "(reference_wrapper k \<in> fst ` set (wrap_args args)) = (k \<in> fst ` set args)"
proof -
  have "fst ` set (wrap_args args) = set (wrap_with_reference (map fst args))"
    by (metis fst_wrap_args list.set_map)
  then show ?thesis by (simp add: in_wrap)
qed

lemma map_of_Some_the: "k \<in> fst ` set xs \<Longrightarrow> map_of xs k = Some (the (map_of xs k))"
  by (metis map_of_eq_None_iff option.exhaust_sel)

lemma aliasing_from_args:
  assumes "shared_references_args List Exclude args = Inr r"
  shows "aliasing (effective_list List Exclude) (aliases_args (effective_list List Exclude) args) r"
proof -
  let ?list = "effective_list List Exclude"
  let ?wl = "wrap_with_reference ?list"
  from assms obtain d where tl: "type_list_concept List"
    and cov: "contains_all_concept ?list (map fst args)"
    and d: "shared_resources_args (wrap_with_reference List) (wrap_with_reference Exclude)
              (wrap_args args) = Inr d"
    and r: "r = Shared_references d"
    by (auto simp: shared_references_args_def split: if_splits sum.splits)
  from d obtain s where s: "storage_args ?wl (wrap_args args) = Inr s"
    and ds: "d = Shared_resources s"
    by (auto simp: shared_resources_args_def wrap_effective_list split: if_splits sum.splits)
  from storage_args_Inr [OF s]
  have eq: "s = map (\<lambda>k. (k, the (map_of (wrap_args args) k))) ?wl" .
  have dl: "distinct ?list" using tl by (rule distinct_effective_list)
  have ty: "types_of s = ?wl" by (simp add: eq types_of_def comp_def)
  have "aliases_args ?list args k = map_of s (reference_wrapper k)" for k
  proof (cases "k \<in> set ?list")
    case True
    with cov have "k \<in> fst ` set args" by (auto simp: contains_all_concept_set)
    from map_of_Some_the [OF this] True show ?thesis
      by (simp add: aliases_args_def eq map_of_keyed in_wrap map_of_wrap_args)
  next
    case False
    then show ?thesis by (simp add: aliases_args_def eq map_of_keyed in_wrap)
  qed
  with dl ty show ?thesis by (simp add: aliasing_def r ds)
qed

lemma aliasing_merged:
  assumes o: "aliasing list0 al0 other"
    and dl: "distinct list"
    and cover: "set (wrap_with_reference list)
        \<subseteq> set (types_of (data (refs other))) \<union> fst ` set (wrap_args args)"
  shows "aliasing list (aliases_extend list al0 args)
     (Shared_references (Shared_resources
        (merged (wrap_with_reference list) (data (refs other)) (wrap_args args))))"
proof -
  let ?a = "data (refs other)"
  let ?wl = "wrap_with_reference list"
  from o have al0: "\<And>k. al0 k = map_of ?a (reference_wrapper k)" by (simp add: aliasing_def)
  have "aliases_extend list al0 args k
      = map_of (merged ?wl ?a (wrap_args args)) (reference_wrapper k)" for k
  proof (cases "k \<in> set list")
    case False
    then show ?thesis by (simp add: aliases_extend_def map_of_merged in_wrap)
  next
    case True
    show ?thesis
    proof (cases "reference_wrapper k \<in> fst ` set ?a")
      case a: True
      from map_of_Some_the [OF a] obtain x where "map_of ?a (reference_wrapper k) = Some x"
        by blast
      with True a show ?thesis
        by (simp add: aliases_extend_def map_of_merged in_wrap al0)
    next
      case a: False
      then have none: "map_of ?a (reference_wrapper k) = None" by (simp add: map_of_eq_None_iff)
      from True have "reference_wrapper k \<in> set ?wl" by (simp add: in_wrap)
      with cover a have "reference_wrapper k \<in> fst ` set (wrap_args args)"
        by (auto simp: types_of_def)
      then have "k \<in> fst ` set args" by (simp add: in_fst_wrap_args)
      from map_of_Some_the [OF this] True a none show ?thesis
        by (simp add: aliases_extend_def map_of_merged in_wrap al0 map_of_wrap_args)
    qed
  qed
  with dl show ?thesis by (simp add: aliasing_def types_of_merged)
qed

lemma aliasing_same:
  assumes "aliasing list al other"
  shows "aliasing list (aliases_extend list al []) other"
proof -
  from assms have ty: "types_of (data (refs other)) = wrap_with_reference list"
    and al: "\<And>k. al k = map_of (data (refs other)) (reference_wrapper k)"
    by (simp_all add: aliasing_def)
  have "aliases_extend list al [] k = al k" for k
  proof (cases "k \<in> set list")
    case True
    then show ?thesis by (cases "al k") (simp_all add: aliases_extend_def)
  next
    case False
    then have "reference_wrapper k \<notin> fst ` set (data (refs other))"
      using ty by (metis in_wrap list.set_map types_of_def)
    then have "al k = None" by (simp add: al map_of_eq_None_iff)
    with False show ?thesis by (simp add: aliases_extend_def)
  qed
  then have "aliases_extend list al [] = al" by (simp add: fun_eq_iff)
  with assms show ?thesis by simp
qed

lemma aliasing_from_other:
  assumes o: "aliasing list0 al0 other"
    and r: "shared_references_extend List Exclude other args = Inr r"
  shows "aliasing (effective_list List Exclude)
           (aliases_extend (effective_list List Exclude) al0 args) r"
proof -
  let ?list = "effective_list List Exclude"
  let ?wl = "wrap_with_reference ?list"
  let ?a = "data (refs other)"
  from r have tl: "type_list_concept List"
    by (auto simp: shared_references_extend_def split: if_splits)
  then have wtl: "type_list_concept (wrap_with_reference List)"
    by (simp add: type_list_distinct distinct_wrap)
  have dl: "distinct ?list" using tl by (rule distinct_effective_list)
  from o have ty0: "types_of ?a = wrap_with_reference list0" by (simp add: aliasing_def)
  show ?thesis
  proof (cases "args = [] \<and> ?wl = types_of ?a")
    case True
    then have same: "?list = list0" by (simp add: ty0 wrap_inject)
    from True r wtl have "r = Shared_references (Shared_resources ?a)"
      by (auto simp: shared_references_extend_def shared_resources_other_def
          shared_resources_same_def wrap_effective_list split: if_splits)
    then have "r = other" by (cases other, cases "refs other") simp
    with aliasing_same [OF o] same True show ?thesis by simp
  next
    case False
    with r wtl obtain s where s: "create_storage ?wl ?a (wrap_args args) = Inr s"
      and rs: "r = Shared_references (Shared_resources s)"
      by (auto simp: shared_references_extend_def shared_resources_other_def
          shared_resources_extend_def wrap_effective_list wrap_args_def
          split: if_splits sum.splits)
    from create_storage_Inr [OF s] have eq: "s = merged ?wl ?a (wrap_args args)"
      and cover: "set ?wl \<subseteq> set (types_of ?a) \<union> fst ` set (wrap_args args)"
      by simp_all
    from aliasing_merged [OF o dl cover] rs eq show ?thesis by simp
  qed
qed

lemma reference_container_aliasing:
  "reference_container list al r \<Longrightarrow> aliasing list al r"
proof (induction rule: reference_container.induct)
  case (from_args List Exclude args r)
  then show ?case by (rule aliasing_from_args)
next
  case (from_other list0 al0 other List Exclude args r)
  from from_other.IH from_other.hyps(2) show ?case by (rule aliasing_from_other)
next
  case (from_copy list al r)
  then show ?case by (simp add: shared_references_copy_id)
qed

lemma shared_references_extend_total:
  assumes o: "aliasing list0 al0 other"
    and tl: "type_list_concept List" "type_list_concept Exclude"
    and ta: "type_list_concept (map fst args)"
    and ne: "effective_list List Exclude \<noteq> []"
    and cover: "\<forall>k \<in> set (effective_list List Exclude).
        contains k list0 \<or> contains k (map fst args)"
  shows "\<exists>r. shared_references_extend List Exclude other args = Inr r"
proof -
  let ?list = "effective_list List Exclude"
  let ?wl = "wrap_with_reference ?list"
  let ?a = "data (refs other)"
  from o have ty0: "types_of ?a = wrap_with_reference list0" and d0: "distinct list0"
    by (simp_all add: aliasing_def)
  have wtl: "type_list_concept (wrap_with_reference List)"
    using tl(1) by (simp add: type_list_distinct distinct_wrap)
  have dwl: "distinct ?wl" using tl(1) by (simp add: distinct_wrap distinct_effective_list)
  have wne: "?wl \<noteq> []" using ne by (simp add: wrap_with_reference_def)
  have da: "distinct (types_of ?a)" using d0 by (simp add: ty0 distinct_wrap)
  have dw: "distinct (map fst (wrap_args args))"
    using ta by (simp add: fst_wrap_args distinct_wrap type_list_distinct)
  have cw: "set ?wl \<subseteq> set (types_of ?a) \<union> fst ` set (wrap_args args)"
  proof
    fix w assume "w \<in> set ?wl"
    then obtain k where w: "w = reference_wrapper k" and k: "k \<in> set ?list"
      by (auto simp: wrap_with_reference_def)
    from cover k have "k \<in> set list0 \<or> k \<in> fst ` set args" by (auto simp: contains_set)
    then show "w \<in> set (types_of ?a) \<union> fst ` set (wrap_args args)"
      by (auto simp: w ty0 in_wrap in_fst_wrap_args)
  qed
  from create_storage_total [OF dwl wne da dw cw]
  have cs: "create_storage ?wl ?a (wrap_args args) = Inr (merged ?wl ?a (wrap_args args))" .
  show ?thesis
  proof (cases "args = []")
    case True
    with cs tl wtl show ?thesis
      by (simp add: shared_references_extend_def shared_resources_other_def
          shared_resources_same_def shared_resources_extend_def wrap_effective_list
          wrap_args_def)
  next
    case False
    with cs tl wtl show ?thesis
      by (simp add: shared_references_extend_def shared_resources_extend_def
          wrap_effective_list)
  qed
qed

section \<open>Claims on the set algebra\<close>

text \<open>
  C7. The duplicate check accepts the empty and every one-element sequence; on a longer
  sequence it is the conjunction of "first differs from second", the check on first and
  tail, and the check on second and tail; and it accepts exactly the pairwise distinct
  sequences, wherever the repeated kind stands.
\<close>

theorem C7_has_no_duplicates_distinct:
  "has_no_duplicates ([] :: 'k list)
   \<and> has_no_duplicates [t :: 'k]
   \<and> has_no_duplicates (head # second # tail) =
       (head \<noteq> second \<and> has_no_duplicates (head # tail) \<and> has_no_duplicates (second # tail))
   \<and> has_no_duplicates (types :: 'k list) = distinct types"
  using has_no_duplicates_distinct [of types] by simp

text \<open>
  C8. Exclusion is a left fold of the single-kind exclusion over the excluded kinds, and
  a single-kind exclusion drops every entry equal to that kind and keeps the others in
  their order.
\<close>

theorem C8_remove_types_fold:
  "remove_types s e = foldl remove_type s e
   \<and> remove_type s x = filter (\<lambda>k. k \<noteq> x) s"
  using remove_types_foldl [of s e] remove_type_filter [of s x] by simp

section \<open>Claims on the storage engine and the resource container\<close>

text \<open>
  C2. Merging two storages \<open>a\<close> and \<open>b\<close> into a storage over a target kind-set whose every
  kind is in the set of \<open>a\<close> or of \<open>b\<close>: the construction builds whenever the target is not
  empty, and in what it builds the slot of each target kind holds the value of \<open>a\<close> when the
  set of \<open>a\<close> has the kind, and the value of \<open>b\<close> otherwise, so \<open>a\<close> wins where both have it.
\<close>

theorem C2_storage_merge_first_wins:
  assumes "type_list_concept target"
    and "type_list_concept (types_of a)" and "type_list_concept (types_of b)"
    and "\<forall>K \<in> set target. contains K (types_of a) \<or> contains K (types_of b)"
  shows "(target \<noteq> [] \<longrightarrow> (\<exists>s. storage_merge target a b = Inr s))
    \<and> (\<forall>s. storage_merge target a b = Inr s \<longrightarrow>
          types_of s = target
          \<and> (\<forall>K \<in> set target.
                storage_get K s =
                  (if contains K (types_of a) then storage_get K a else storage_get K b)
                \<and> (\<exists>v. storage_get K s = Inr v)))"
proof -
  have cover: "set target \<subseteq> set (types_of a) \<union> set (types_of b)"
    using assms(4) by (auto simp: contains_set)
  have total: "target \<noteq> [] \<Longrightarrow> storage_merge target a b = Inr (merged target a b)"
    using assms(1-3) cover by (intro storage_merge_total) (simp_all add: type_list_distinct)
  have right: "types_of s = target
      \<and> (\<forall>K \<in> set target.
            storage_get K s =
              (if contains K (types_of a) then storage_get K a else storage_get K b)
            \<and> (\<exists>v. storage_get K s = Inr v))"
    if s: "storage_merge target a b = Inr s" for s
  proof -
    from storage_merge_Inr [OF s] have eq: "s = merged target a b" .
    have "storage_get K s =
        (if contains K (types_of a) then storage_get K a else storage_get K b)
        \<and> (\<exists>v. storage_get K s = Inr v)" if K: "K \<in> set target" for K
    proof -
      from K cover have in_ab: "K \<in> fst ` set a \<union> fst ` set b"
        by (auto simp: types_of_def)
      have "\<exists>v. storage_get K (merged target a b) = Inr v"
        using K by (simp add: storage_get_map_of merged_def map_of_keyed)
      with storage_get_merged [OF K in_ab] eq show ?thesis by simp
    qed
    then have "\<forall>K \<in> set target.
        storage_get K s =
          (if contains K (types_of a) then storage_get K a else storage_get K b)
        \<and> (\<exists>v. storage_get K s = Inr v)" by blast
    moreover have "types_of s = target" using eq by (simp only: types_of_merged)
    ultimately show ?thesis by blast
  qed
  from total right show ?thesis by blast
qed

theorem C2_storage_merge_first_wins_witness:
  "type_list_concept [T_int, T_int_ptr]
   \<and> type_list_concept (types_of [(T_int, 1::nat), (T_char, 97)])
   \<and> type_list_concept (types_of [(T_int, 2::nat), (T_int_ptr, 1000)])
   \<and> (\<exists>s. storage_merge [T_int, T_int_ptr] [(T_int, 1::nat), (T_char, 97)]
              [(T_int, 2), (T_int_ptr, 1000)] = Inr s
          \<and> types_of s = [T_int, T_int_ptr]
          \<and> storage_get T_int s = Inr 1
          \<and> storage_get T_int_ptr s = Inr 1000)"
proof -
  let ?a = "[(T_int, 1::nat), (T_char, 97)]"
  let ?b = "[(T_int, 2::nat), (T_int_ptr, 1000)]"
  have h1: "type_list_concept [T_int, T_int_ptr]" by (simp add: type_list_concept_def)
  have h2: "type_list_concept (types_of ?a)" by (simp add: type_list_concept_def types_of_def)
  have h3: "type_list_concept (types_of ?b)" by (simp add: type_list_concept_def types_of_def)
  have h4: "\<forall>K \<in> set [T_int, T_int_ptr]. contains K (types_of ?a) \<or> contains K (types_of ?b)"
    by (simp add: types_of_def)
  from C2_storage_merge_first_wins [OF h1 h2 h3 h4]
  obtain s where s: "storage_merge [T_int, T_int_ptr] ?a ?b = Inr s"
    and r: "types_of s = [T_int, T_int_ptr]"
      "\<forall>K \<in> set [T_int, T_int_ptr]. storage_get K s =
          (if contains K (types_of ?a) then storage_get K ?a else storage_get K ?b)"
    by blast
  from r(2) have "storage_get T_int s = Inr 1" "storage_get T_int_ptr s = Inr 1000"
    by (simp_all add: types_of_def)
  with h1 h2 h3 s r(1) show ?thesis by blast
qed

text \<open>
  C4. A resource container constructed from raw values whose kinds cover the effective set
  returns, for each kind of the effective set, the argument of that kind; the construction
  builds whenever the effective set is not empty, and any reordering of the arguments
  constructs the same container.
\<close>

theorem C4_construct_from_values_round_trip:
  assumes "type_list_concept List" and "type_list_concept (map fst args)"
    and "contains_all (effective_list List Exclude) (map fst args)"
  shows "(effective_list List Exclude \<noteq> [] \<longrightarrow>
            (\<exists>c. shared_resources_args List Exclude args = Inr c))
    \<and> (\<forall>c. shared_resources_args List Exclude args = Inr c \<longrightarrow>
          (\<forall>K \<in> set (effective_list List Exclude).
             \<exists>v. (K, v) \<in> set args \<and> shared_resources_get K c = Inr v))
    \<and> (\<forall>args'. mset args' = mset args \<longrightarrow>
          shared_resources_args List Exclude args' = shared_resources_args List Exclude args)"
proof -
  let ?list = "effective_list List Exclude"
  have dl: "distinct ?list"
    using assms(1) by (simp add: effective_list_def type_list_distinct distinct_remove_types)
  have da: "distinct (map fst args)" using assms(2) by (simp add: type_list_distinct)
  have sub: "set ?list \<subseteq> fst ` set args" using assms(3) by (simp add: contains_all_set)
  have cac: "contains_all_concept ?list (map fst args)"
    using dl da sub by (simp add: contains_all_concept_set)
  have total: "?list \<noteq> [] \<Longrightarrow> shared_resources_args List Exclude args
      = Inr (Shared_resources (map (\<lambda>k. (k, the (map_of args k))) ?list))"
    using assms(1) cac storage_args_total [OF dl da sub]
    by (simp add: shared_resources_args_def)
  have right: "\<exists>v. (K, v) \<in> set args \<and> shared_resources_get K c = Inr v"
    if c: "shared_resources_args List Exclude args = Inr c" and K: "K \<in> set ?list" for c K
  proof -
    from c obtain s where s: "storage_args ?list args = Inr s" and cs: "c = Shared_resources s"
      by (auto simp: shared_resources_args_def split: if_splits sum.splits)
    from storage_args_Inr [OF s] have eq: "s = map (\<lambda>k. (k, the (map_of args k))) ?list" .
    from K sub obtain v where v: "map_of args K = Some v"
      by (metis map_of_eq_None_iff not_Some_eq subsetD)
    then have "(K, v) \<in> set args" by (rule map_of_SomeD)
    moreover have "shared_resources_get K c = Inr v"
      using K v by (simp add: shared_resources_get_def cs eq storage_get_map_of map_of_keyed)
    ultimately show ?thesis by blast
  qed
  have perm: "shared_resources_args List Exclude args' = shared_resources_args List Exclude args"
    if p: "mset args' = mset args" for args'
  proof -
    have mk: "mset (map fst args') = mset (map fst args)" using p by (metis mset_map)
    then have da': "distinct (map fst args')" using da by (metis mset_eq_imp_distinct_iff)
    have sk: "set (map fst args') = set (map fst args)" using mk by (metis mset_eq_setD)
    have mo: "map_of args' = map_of args" using p da by (rule map_of_perm)
    show ?thesis
    proof (cases "?list = []")
      case True
      have "(args' = []) = (args = [])" using p by (metis mset_zero_iff)
      with True da da' show ?thesis
        by (simp add: shared_resources_args_def contains_all_concept_set)
    next
      case False
      have sub': "set ?list \<subseteq> fst ` set args'" using sub sk by simp
      have cac': "contains_all_concept ?list (map fst args')"
        using dl da' sub' by (simp add: contains_all_concept_set)
      have "shared_resources_args List Exclude args'
          = Inr (Shared_resources (map (\<lambda>k. (k, the (map_of args' k))) ?list))"
        using assms(1) cac' storage_args_total [OF dl da' sub' False]
        by (simp add: shared_resources_args_def)
      with total [OF False] mo show ?thesis by simp
    qed
  qed
  from total right perm show ?thesis by blast
qed

theorem C4_construct_from_values_round_trip_witness:
  "type_list_concept [T_int, T_char, T_int_ptr]
   \<and> type_list_concept (map fst [(T_char, 97::nat), (T_int, 1)])
   \<and> (\<exists>c. shared_resources_args [T_int, T_char, T_int_ptr] [T_int_ptr]
              [(T_char, 97::nat), (T_int, 1)] = Inr c
          \<and> shared_resources_get T_int c = Inr 1
          \<and> shared_resources_get T_char c = Inr 97)
   \<and> shared_resources_args [T_int, T_char, T_int_ptr] [T_int_ptr] [(T_int, 1::nat), (T_char, 97)]
      = shared_resources_args [T_int, T_char, T_int_ptr] [T_int_ptr] [(T_char, 97), (T_int, 1)]"
proof -
  let ?L = "[T_int, T_char, T_int_ptr]"
  let ?args = "[(T_char, 97::nat), (T_int, 1)]"
  let ?args' = "[(T_int, 1::nat), (T_char, 97)]"
  have e: "effective_list ?L [T_int_ptr] = [T_int, T_char]" by (simp add: effective_list_def)
  have h1: "type_list_concept ?L" by (simp add: type_list_concept_def)
  have h2: "type_list_concept (map fst ?args)" by (simp add: type_list_concept_def)
  have h3: "contains_all (effective_list ?L [T_int_ptr]) (map fst ?args)" by (simp add: e)
  note th = C4_construct_from_values_round_trip [OF h1 h2 h3]
  have ne: "effective_list ?L [T_int_ptr] \<noteq> []" by (simp add: e)
  from th ne obtain c where c: "shared_resources_args ?L [T_int_ptr] ?args = Inr c" by blast
  from th c have r: "\<forall>K \<in> set (effective_list ?L [T_int_ptr]).
      \<exists>v. (K, v) \<in> set ?args \<and> shared_resources_get K c = Inr v"
    by blast
  have "T_int \<in> set (effective_list ?L [T_int_ptr])" by (simp add: e)
  with r obtain v where "(T_int, v) \<in> set ?args" "shared_resources_get T_int c = Inr v" by blast
  then have g1: "shared_resources_get T_int c = Inr 1" by simp
  have "T_char \<in> set (effective_list ?L [T_int_ptr])" by (simp add: e)
  with r obtain w where "(T_char, w) \<in> set ?args" "shared_resources_get T_char c = Inr w" by blast
  then have g2: "shared_resources_get T_char c = Inr 97" by simp
  have "mset ?args' = mset ?args" by (simp add: add_mset_commute)
  with th have p: "shared_resources_args ?L [T_int_ptr] ?args' = shared_resources_args ?L [T_int_ptr] ?args"
    by blast
  from h1 h2 c g1 g2 p show ?thesis by blast
qed

text \<open>
  C5. When the effective kind-set of the target is a permutation of the kind-set of the
  source container, the conversion builds, the new container is declared over the target's
  effective list, and \<^verbatim>\<open>get<K>()\<close> returns on it what it returns on the source, for every
  kind of the set.
\<close>

theorem C5_permuted_conversion_lossless:
  assumes "type_list_concept List"
    and "mset (effective_list List Exclude) = mset (types_of (data other))"
  shows "\<exists>c. shared_resources_other List Exclude other = Inr c
    \<and> types_of (data c) = effective_list List Exclude
    \<and> (\<forall>K \<in> set (effective_list List Exclude).
          shared_resources_get K c = shared_resources_get K other
          \<and> (\<exists>v. shared_resources_get K c = Inr v))"
proof -
  let ?list = "effective_list List Exclude"
  have dl: "distinct ?list" using assms(1) by (rule distinct_effective_list)
  have dA: "distinct (types_of (data other))"
    using dl assms(2) by (metis mset_eq_imp_distinct_iff)
  have sets: "set ?list = set (types_of (data other))" using assms(2) by (metis mset_eq_setD)
  have present: "\<exists>v. storage_get K (data other) = Inr v" if "K \<in> set ?list" for K
    using that sets by (simp add: types_of_def storage_get_the)
  show ?thesis
  proof (cases "?list = types_of (data other)")
    case True
    with assms(1) have "shared_resources_other List Exclude other = Inr (Shared_resources (data other))"
      by (simp add: shared_resources_other_def shared_resources_same_def)
    with True present show ?thesis by (simp add: shared_resources_get_def)
  next
    case False
    with sets have ne: "?list \<noteq> []" by auto
    from sets have sub: "set ?list \<subseteq> set (types_of (data other)) \<union> fst ` set []" by simp
    have c: "shared_resources_other List Exclude other
        = Inr (Shared_resources (merged ?list (data other) []))"
      using False assms(1) create_storage_total [OF dl ne dA _ sub]
      by (simp add: shared_resources_other_def shared_resources_extend_def)
    have "storage_get K (merged ?list (data other) []) = storage_get K (data other)"
      if K: "K \<in> set ?list" for K
    proof -
      from K sets have "K \<in> fst ` set (data other) \<union> fst ` set []"
        by (simp add: types_of_def)
      from storage_get_merged [OF K this] K sets show ?thesis by (simp add: contains_set)
    qed
    with c present show ?thesis by (simp add: shared_resources_get_def types_of_merged)
  qed
qed

theorem C5_permuted_conversion_lossless_witness:
  "type_list_concept [T_char_ptr, T_int, T_char, T_int_ptr]
   \<and> (\<exists>c. shared_resources_other [T_char_ptr, T_int, T_char, T_int_ptr] []
              (Shared_resources [(T_int, 1::nat), (T_char, 97), (T_int_ptr, 1000), (T_char_ptr, 2000)])
            = Inr c
          \<and> types_of (data c) = [T_char_ptr, T_int, T_char, T_int_ptr]
          \<and> shared_resources_get T_int c = Inr 1
          \<and> shared_resources_get T_char_ptr c = Inr 2000)"
proof -
  let ?L = "[T_char_ptr, T_int, T_char, T_int_ptr]"
  let ?other = "Shared_resources [(T_int, 1::nat), (T_char, 97), (T_int_ptr, 1000), (T_char_ptr, 2000)]"
  have h1: "type_list_concept ?L" by (simp add: type_list_concept_def)
  have e: "effective_list ?L [] = ?L" by (simp add: effective_list_def)
  have h2: "mset (effective_list ?L []) = mset (types_of (data ?other))"
    by (simp add: e types_of_def)
  from C5_permuted_conversion_lossless [OF h1 h2]
  obtain c where c: "shared_resources_other ?L [] ?other = Inr c"
    and t: "types_of (data c) = effective_list ?L []"
    and r: "\<forall>K \<in> set (effective_list ?L []).
        shared_resources_get K c = shared_resources_get K ?other"
    by blast
  have "T_int \<in> set (effective_list ?L [])" "T_char_ptr \<in> set (effective_list ?L [])"
    by (simp_all add: e)
  with r have "shared_resources_get T_int c = shared_resources_get T_int ?other"
    "shared_resources_get T_char_ptr c = shared_resources_get T_char_ptr ?other"
    by blast+
  then have "shared_resources_get T_int c = Inr 1" "shared_resources_get T_char_ptr c = Inr 2000"
    by (simp_all add: shared_resources_get_def)
  with h1 c t e show ?thesis by auto
qed

text \<open>
  C1, as the code has it. The extension constructor passes the source container's storage
  as the first operand of the merge and the storage of the extra values as the second, and
  the first operand wins: for every kind of the effective set that the source container
  supplies, also when an extra value of that kind is passed, \<^verbatim>\<open>get<K>()\<close> returns the source
  container's value; the extra value is returned only for a kind the source lacks. The
  construction builds whenever the effective set is not empty and covered.
\<close>

theorem C1_extension_source_wins:
  assumes "type_list_concept List" and "type_list_concept (types_of (data A))"
    and "type_list_concept (map fst args)"
    and "\<forall>K \<in> set (effective_list List Exclude).
           contains K (types_of (data A)) \<or> contains K (map fst args)"
  shows "(effective_list List Exclude \<noteq> [] \<longrightarrow>
            (\<exists>c. shared_resources_extend List Exclude A args = Inr c))
    \<and> (\<forall>c. shared_resources_extend List Exclude A args = Inr c \<longrightarrow>
          (\<forall>K \<in> set (effective_list List Exclude).
             shared_resources_get K c =
               (if contains K (types_of (data A)) then shared_resources_get K A
                else get K args)
             \<and> (\<exists>v. shared_resources_get K c = Inr v)))"
proof -
  let ?list = "effective_list List Exclude"
  have dl: "distinct ?list" using assms(1) by (rule distinct_effective_list)
  have dA: "distinct (types_of (data A))" using assms(2) by (simp add: type_list_distinct)
  have da: "distinct (map fst args)" using assms(3) by (simp add: type_list_distinct)
  have cover: "set ?list \<subseteq> set (types_of (data A)) \<union> fst ` set args"
    using assms(4) by (auto simp: contains_set)
  have total: "?list \<noteq> [] \<Longrightarrow> \<exists>c. shared_resources_extend List Exclude A args = Inr c"
    using assms(1) create_storage_total [OF dl _ dA da cover]
    by (simp add: shared_resources_extend_def)
  have right: "shared_resources_get K c =
        (if contains K (types_of (data A)) then shared_resources_get K A else get K args)
      \<and> (\<exists>v. shared_resources_get K c = Inr v)"
    if c: "shared_resources_extend List Exclude A args = Inr c" and K: "K \<in> set ?list" for c K
  proof -
    from c obtain s where s: "create_storage ?list (data A) args = Inr s"
      and cs: "c = Shared_resources s"
      by (auto simp: shared_resources_extend_def split: if_splits sum.splits)
    from create_storage_Inr [OF s] have eq: "s = merged ?list (data A) args" by simp
    from K cover have in_ab: "K \<in> fst ` set (data A) \<union> fst ` set args"
      by (auto simp: types_of_def)
    have g: "storage_get K s =
        (if contains K (types_of (data A)) then storage_get K (data A) else storage_get K args)"
      unfolding eq using K in_ab by (rule storage_get_merged)
    have ex: "\<exists>v. storage_get K s = Inr v"
      using K by (simp add: eq storage_get_map_of merged_def map_of_keyed)
    have "storage_get K args = get K args" if "\<not> contains K (types_of (data A))"
    proof -
      from that in_ab have "K \<in> fst ` set args" by (auto simp: contains_set types_of_def)
      with da show ?thesis by (simp add: get_map_of storage_get_the)
    qed
    with g ex show ?thesis by (simp add: shared_resources_get_def cs)
  qed
  from total right show ?thesis by blast
qed

theorem C1_extension_source_wins_witness:
  "type_list_concept [T_int, T_char, T_int_ptr]
   \<and> type_list_concept (types_of (data (Shared_resources [(T_int, 1::nat), (T_char, 97)])))
   \<and> type_list_concept (map fst [(T_int, 2::nat), (T_int_ptr, 1000)])
   \<and> (\<exists>c. shared_resources_extend [T_int, T_char, T_int_ptr] []
              (Shared_resources [(T_int, 1::nat), (T_char, 97)])
              [(T_int, 2), (T_int_ptr, 1000)] = Inr c
          \<and> shared_resources_get T_int c = Inr 1
          \<and> shared_resources_get T_int_ptr c = Inr 1000)"
proof -
  let ?L = "[T_int, T_char, T_int_ptr]"
  let ?A = "Shared_resources [(T_int, 1::nat), (T_char, 97)]"
  let ?args = "[(T_int, 2::nat), (T_int_ptr, 1000)]"
  have e: "effective_list ?L [] = ?L" by (simp add: effective_list_def)
  have h1: "type_list_concept ?L" by (simp add: type_list_concept_def)
  have h2: "type_list_concept (types_of (data ?A))"
    by (simp add: type_list_concept_def types_of_def)
  have h3: "type_list_concept (map fst ?args)" by (simp add: type_list_concept_def)
  have h4: "\<forall>K \<in> set (effective_list ?L []).
      contains K (types_of (data ?A)) \<or> contains K (map fst ?args)"
    by (simp add: e types_of_def)
  note th = C1_extension_source_wins [OF h1 h2 h3 h4]
  have ne: "effective_list ?L [] \<noteq> []" by (simp add: e)
  from th ne obtain c where c: "shared_resources_extend ?L [] ?A ?args = Inr c" by blast
  from th c have r: "\<forall>K \<in> set (effective_list ?L []).
      shared_resources_get K c =
        (if contains K (types_of (data ?A)) then shared_resources_get K ?A else get K ?args)"
    by blast
  have "T_int \<in> set (effective_list ?L [])" by (simp add: e)
  with r have "shared_resources_get T_int c =
      (if contains T_int (types_of (data ?A)) then shared_resources_get T_int ?A
       else get T_int ?args)" by blast
  then have g1: "shared_resources_get T_int c = Inr 1"
    by (simp add: types_of_def shared_resources_get_def)
  have "T_int_ptr \<in> set (effective_list ?L [])" by (simp add: e)
  with r have "shared_resources_get T_int_ptr c =
      (if contains T_int_ptr (types_of (data ?A)) then shared_resources_get T_int_ptr ?A
       else get T_int_ptr ?args)" by blast
  then have g2: "shared_resources_get T_int_ptr c = Inr 1000"
    by (simp add: types_of_def contains_concept_def type_list_concept_def)
  from h1 h2 h3 c g1 g2 show ?thesis by blast
qed

text \<open>
  The claim C1 as stated fails: a container over \<^verbatim>\<open>int\<close> and \<^verbatim>\<open>char\<close> holding the \<^verbatim>\<open>int\<close> 1,
  extended with the \<^verbatim>\<open>int\<close> 2, yields a container whose \<^verbatim>\<open>get<int>()\<close> is 1.
\<close>

theorem C1_extension_new_value_counterexample:
  "shared_resources_args [T_int, T_char] [] [(T_int, 1::nat), (T_char, 97)]
     = Inr (Shared_resources [(T_int, 1), (T_char, 97)])
   \<and> shared_resources_extend [T_int, T_char] [] (Shared_resources [(T_int, 1::nat), (T_char, 97)])
       [(T_int, 2)] = Inr (Shared_resources [(T_int, 1), (T_char, 97)])
   \<and> shared_resources_get T_int (Shared_resources [(T_int, 1::nat), (T_char, 97)]) = Inr 1
   \<and> shared_resources_get T_int (Shared_resources [(T_int, 1::nat), (T_char, 97)]) \<noteq> Inr 2"
  by (simp add: shared_resources_args_def shared_resources_extend_def create_storage_def
      effective_list_def contains_all_concept_def contains_concept_def type_list_concept_def
      get_head_def types_of_def shared_resources_get_def)

text \<open>
  C3, as the code has it. Constructing a container from another container alone builds
  exactly when every kind of the target's effective set is a kind of the source's effective
  set, and the target's effective set is empty only if the source's is. So it builds
  whenever the two effective sets are the same set, in any order and however derived; it
  also builds when the target's effective set is a smaller non-empty one (narrowing).
\<close>

theorem C3_conversion_permitted:
  assumes "type_list_concept List" and "type_list_concept (types_of (data other))"
  shows "((\<exists>c. shared_resources_other List Exclude other = Inr c) =
          (contains_all (effective_list List Exclude) (types_of (data other))
           \<and> (effective_list List Exclude = [] \<longrightarrow> types_of (data other) = [])))
    \<and> (set (effective_list List Exclude) = set (types_of (data other)) \<longrightarrow>
          (\<exists>c. shared_resources_other List Exclude other = Inr c))"
proof -
  have "(effective_list List Exclude = types_of (data other)
     \<or> effective_list List Exclude \<noteq> []
        \<and> set (effective_list List Exclude) \<subseteq> set (types_of (data other)))
    = (set (effective_list List Exclude) \<subseteq> set (types_of (data other))
       \<and> (effective_list List Exclude = [] \<longrightarrow> types_of (data other) = []))"
    by auto
  with shared_resources_other_Inr_iff [OF assms, of Exclude]
  have iff: "(\<exists>c. shared_resources_other List Exclude other = Inr c) =
      (contains_all (effective_list List Exclude) (types_of (data other))
       \<and> (effective_list List Exclude = [] \<longrightarrow> types_of (data other) = []))"
    by (simp add: contains_all_set)
  moreover have "\<exists>c. shared_resources_other List Exclude other = Inr c"
    if "set (effective_list List Exclude) = set (types_of (data other))"
    using that unfolding iff by (auto simp: contains_all_set)
  ultimately show ?thesis by blast
qed

theorem C3_conversion_permitted_witness:
  "type_list_concept [T_char_ptr, T_int, T_char, T_int_ptr]
   \<and> type_list_concept (types_of (data (Shared_resources
         [(T_char, 97::nat), (T_int_ptr, 1000), (T_char_ptr, 2000)])))
   \<and> set (effective_list [T_char_ptr, T_int, T_char, T_int_ptr] [T_int])
       = set (types_of (data (Shared_resources
           [(T_char, 97::nat), (T_int_ptr, 1000), (T_char_ptr, 2000)])))
   \<and> (\<exists>c. shared_resources_other [T_char_ptr, T_int, T_char, T_int_ptr] [T_int]
          (Shared_resources [(T_char, 97::nat), (T_int_ptr, 1000), (T_char_ptr, 2000)]) = Inr c)
   \<and> \<not> (\<exists>c. shared_resources_other [T_char_ptr, T_int, T_char, T_int_ptr] []
          (Shared_resources [(T_char, 97::nat), (T_int_ptr, 1000), (T_char_ptr, 2000)]) = Inr c)"
proof -
  let ?L = "[T_char_ptr, T_int, T_char, T_int_ptr]"
  let ?other = "Shared_resources [(T_char, 97::nat), (T_int_ptr, 1000), (T_char_ptr, 2000)]"
  have h1: "type_list_concept ?L" by (simp add: type_list_concept_def)
  have h2: "type_list_concept (types_of (data ?other))"
    by (simp add: type_list_concept_def types_of_def)
  have e: "effective_list ?L [T_int] = [T_char_ptr, T_char, T_int_ptr]"
    "effective_list ?L [] = ?L"
    by (simp_all add: effective_list_def)
  have s: "set (effective_list ?L [T_int]) = set (types_of (data ?other))"
    by (auto simp: e types_of_def)
  from C3_conversion_permitted [OF h1 h2, of "[T_int]"] s
  have yes: "\<exists>c. shared_resources_other ?L [T_int] ?other = Inr c" by blast
  have "\<not> contains_all (effective_list ?L []) (types_of (data ?other))"
    by (simp add: e types_of_def)
  with C3_conversion_permitted [OF h1 h2, of "[]"]
  have no: "\<not> (\<exists>c. shared_resources_other ?L [] ?other = Inr c)" by blast
  from h1 h2 s yes no show ?thesis by blast
qed

text \<open>
  The claim C3 as stated fails in its "only if": a container over \<^verbatim>\<open>char\<close>, \<^verbatim>\<open>int *\<close> and
  \<^verbatim>\<open>char *\<close> converts into one over \<^verbatim>\<open>int *\<close> and \<^verbatim>\<open>char *\<close>, although the two effective
  sets differ.
\<close>

theorem C3_conversion_narrowing_counterexample:
  "shared_resources_other [T_int, T_char, T_int_ptr, T_char_ptr] [T_int, T_char]
     (Shared_resources [(T_char, 97::nat), (T_int_ptr, 1000), (T_char_ptr, 2000)])
     = Inr (Shared_resources [(T_int_ptr, 1000), (T_char_ptr, 2000)])
   \<and> set (effective_list [T_int, T_char, T_int_ptr, T_char_ptr] [T_int, T_char])
       \<noteq> set (types_of (data (Shared_resources
             [(T_char, 97::nat), (T_int_ptr, 1000), (T_char_ptr, 2000)])))"
  by (auto simp: shared_resources_other_def shared_resources_extend_def create_storage_def
      effective_list_def contains_concept_def type_list_concept_def
      get_head_def types_of_def)

text \<open>
  C10, as the code has it. The lookup returns a value exactly for argument lists it is
  constrained to accept: when the kinds of the arguments are pairwise distinct and the
  target kind is among them, it returns the argument of the target kind, which is the
  leftmost argument of that kind; when a kind is repeated among the arguments, the
  constraint of the variadic overload names an ill-formed \<^verbatim>\<open>type_list\<close> and the call is
  rejected.
\<close>

theorem C10_get_needs_distinct_kinds:
  "(type_list_concept (map fst args) \<and> contains target (map fst args) \<longrightarrow>
      (\<exists>v. get target args = Inr v \<and> find (\<lambda>a. fst a = target) args = Some (target, v)))
   \<and> (\<not> type_list_concept (map fst args) \<longrightarrow> get target args = Inl Constraint_not_satisfied)"
proof -
  have "\<exists>v. get target args = Inr v \<and> find (\<lambda>a. fst a = target) args = Some (target, v)"
    if d: "distinct (map fst args)" and t: "target \<in> fst ` set args"
  proof -
    from get_map_of [OF d t] have g: "get target args = Inr (the (map_of args target))" .
    from get_Inr_map_of [OF g] have "map_of args target = Some (the (map_of args target))" .
    from map_of_find [OF this] g show ?thesis by blast
  qed
  then show ?thesis
    by (simp add: type_list_distinct contains_set get_isl_duplicates)
qed

theorem C10_get_needs_distinct_kinds_witness:
  "type_list_concept (map fst [(T_char, 97::nat), (T_int, 1), (T_int_ptr, 1000)])
   \<and> contains T_int (map fst [(T_char, 97::nat), (T_int, 1), (T_int_ptr, 1000)])
   \<and> get T_int [(T_char, 97::nat), (T_int, 1), (T_int_ptr, 1000)] = Inr 1
   \<and> \<not> type_list_concept (map fst [(T_int, 1::nat), (T_char, 97), (T_char, 98)])
   \<and> get T_int [(T_int, 1::nat), (T_char, 97), (T_char, 98)] = Inl Constraint_not_satisfied"
proof -
  let ?args = "[(T_char, 97::nat), (T_int, 1), (T_int_ptr, 1000)]"
  let ?dup = "[(T_int, 1::nat), (T_char, 97), (T_char, 98)]"
  have h1: "type_list_concept (map fst ?args)" by (simp add: type_list_concept_def)
  have h2: "contains T_int (map fst ?args)" by simp
  from C10_get_needs_distinct_kinds [of ?args T_int] h1 h2
  obtain v where v: "get T_int ?args = Inr v"
    and f: "find (\<lambda>a. fst a = T_int) ?args = Some (T_int, v)" by blast
  from f have "v = 1" by simp
  with v have g: "get T_int ?args = Inr 1" by simp
  have h3: "\<not> type_list_concept (map fst ?dup)" by (simp add: type_list_concept_def)
  with C10_get_needs_distinct_kinds [of ?dup T_int]
  have n: "get T_int ?dup = Inl Constraint_not_satisfied" by blast
  from h1 h2 g h3 n show ?thesis by blast
qed

text \<open>
  The claim C10 as stated fails: with two arguments of the target kind the lookup does not
  return the first of them, it is rejected.
\<close>

theorem C10_get_repeated_kind_counterexample:
  "contains T_int (map fst [(T_int, 1::nat), (T_int, 2)])
   \<and> get T_int [(T_int, 1::nat), (T_int, 2)] = Inl Constraint_not_satisfied
   \<and> get T_int [(T_int, 1::nat), (T_int, 2)] \<noteq> Inr 1"
  by (simp add: contains_concept_def type_list_concept_def)

section \<open>Claims on aliasing and value semantics\<close>

text \<open>
  C6. Every reference container, however it was made (from lvalues, from another reference
  container and extra lvalues, by copy), holds for each kind of its effective set the
  location of the variable it aliases: \<^verbatim>\<open>get<K>()\<close> returns that location, so assigning
  through it changes the aliased variable itself, and a copy of the container returns the
  same location and reads the new value. Both constructors build on well-formed arguments
  with a non-empty effective set, and what they build is such a container.
\<close>

theorem C6_reference_container_aliases:
  "(reference_container list al r \<and> K \<in> set list \<longrightarrow>
      (\<exists>x ref ref'. al K = Some x
         \<and> shared_references_get K r = Inr ref
         \<and> shared_references_get K (shared_references_copy r) = Inr ref'
         \<and> (m(ref := w)) x = w
         \<and> (m(ref := w)) ref' = w))
   \<and> (type_list_concept List \<and> type_list_concept Exclude \<and> type_list_concept (map fst args)
       \<and> contains_all (effective_list List Exclude) (map fst args)
       \<and> effective_list List Exclude \<noteq> [] \<longrightarrow>
      (\<exists>r'. shared_references_args List Exclude args = Inr r'
         \<and> reference_container (effective_list List Exclude)
              (aliases_args (effective_list List Exclude) args) r'))
   \<and> (reference_container list al r
       \<and> type_list_concept List \<and> type_list_concept Exclude \<and> type_list_concept (map fst args)
       \<and> effective_list List Exclude \<noteq> []
       \<and> (\<forall>k \<in> set (effective_list List Exclude). contains k list \<or> contains k (map fst args))
       \<longrightarrow>
      (\<exists>r'. shared_references_extend List Exclude r args = Inr r'
         \<and> reference_container (effective_list List Exclude)
              (aliases_extend (effective_list List Exclude) al args) r'))"
proof (intro conjI impI)
  assume a: "reference_container list al r \<and> K \<in> set list"
  then have inv: "aliasing list al r" by (simp add: reference_container_aliasing)
  from a inv have "reference_wrapper K \<in> fst ` set (data (refs r))"
    by (metis aliasing_def in_wrap list.set_map types_of_def)
  from map_of_Some_the [OF this]
  obtain x where x: "map_of (data (refs r)) (reference_wrapper K) = Some x" by blast
  with inv have al: "al K = Some x" by (simp add: aliasing_def)
  from x have g: "shared_references_get K r = Inr x"
    by (simp add: shared_references_get_def shared_resources_get_def storage_get_map_of)
  then have "shared_references_get K (shared_references_copy r) = Inr x"
    by (simp add: shared_references_copy_id)
  with al g show "\<exists>x ref ref'. al K = Some x
      \<and> shared_references_get K r = Inr ref
      \<and> shared_references_get K (shared_references_copy r) = Inr ref'
      \<and> (m(ref := w)) x = w
      \<and> (m(ref := w)) ref' = w"
    by (intro exI [of _ x]) simp
next
  assume "type_list_concept List \<and> type_list_concept Exclude \<and> type_list_concept (map fst args)
    \<and> contains_all (effective_list List Exclude) (map fst args)
    \<and> effective_list List Exclude \<noteq> []"
  then obtain r' where "shared_references_args List Exclude args = Inr r'"
    using shared_references_args_total [of List Exclude args] by blast
  then show "\<exists>r'. shared_references_args List Exclude args = Inr r'
      \<and> reference_container (effective_list List Exclude)
           (aliases_args (effective_list List Exclude) args) r'"
    by (blast intro: reference_container.from_args)
next
  assume a: "reference_container list al r
    \<and> type_list_concept List \<and> type_list_concept Exclude \<and> type_list_concept (map fst args)
    \<and> effective_list List Exclude \<noteq> []
    \<and> (\<forall>k \<in> set (effective_list List Exclude). contains k list \<or> contains k (map fst args))"
  then have "aliasing list al r" by (simp add: reference_container_aliasing)
  from shared_references_extend_total [OF this, of List Exclude args] a
  obtain r' where "shared_references_extend List Exclude r args = Inr r'" by blast
  with a show "\<exists>r'. shared_references_extend List Exclude r args = Inr r'
      \<and> reference_container (effective_list List Exclude)
           (aliases_extend (effective_list List Exclude) al args) r'"
    by (blast intro: reference_container.from_other)
qed

theorem C6_reference_container_aliases_witness:
  "\<exists>r1 r2 ref ref'.
     shared_references_args [T_int, T_char, T_int_ptr, T_char_ptr] [T_int]
       [(T_int_ptr, Var 2 :: kind loc), (T_char, Var 1), (T_char_ptr, Var 3)] = Inr r1
   \<and> shared_references_extend [T_int, T_char, T_int_ptr, T_char_ptr] [] r1 [(T_int, Var 0)]
       = Inr r2
   \<and> shared_references_get T_char r2 = Inr ref
   \<and> shared_references_get T_char (shared_references_copy r2) = Inr ref'
   \<and> ((\<lambda>l. 97::nat)(ref := 99)) (Var 1) = 99
   \<and> ((\<lambda>l. 97::nat)(ref := 99)) ref' = 99"
proof -
  let ?all = "[T_int, T_char, T_int_ptr, T_char_ptr]"
  let ?args1 = "[(T_int_ptr, Var 2 :: kind loc), (T_char, Var 1), (T_char_ptr, Var 3)]"
  let ?args2 = "[(T_int, Var 0 :: kind loc)]"
  let ?m = "\<lambda>l :: kind loc. 97::nat"
  have e1: "effective_list ?all [T_int] = [T_char, T_int_ptr, T_char_ptr]"
    and e2: "effective_list ?all [] = ?all"
    by (simp_all add: effective_list_def)
  have t: "type_list_concept ?all" "type_list_concept [T_int]" "type_list_concept ([] :: kind list)"
    "type_list_concept (map fst ?args1)" "type_list_concept (map fst ?args2)"
    by (simp_all add: type_list_concept_def)
  have c1: "contains_all (effective_list ?all [T_int]) (map fst ?args1)" by (simp add: e1)
  have n1: "effective_list ?all [T_int] \<noteq> []" by (simp add: e1)
  note built = C6_reference_container_aliases [THEN conjunct2, THEN conjunct1]
  from built [of ?all "[T_int]" ?args1] t c1 n1
  obtain r1 where r1: "shared_references_args ?all [T_int] ?args1 = Inr r1"
    and rc1: "reference_container (effective_list ?all [T_int])
        (aliases_args (effective_list ?all [T_int]) ?args1) r1"
    by blast
  have n2: "effective_list ?all [] \<noteq> []" by (simp add: e2)
  have c2: "\<forall>k \<in> set (effective_list ?all []).
      contains k (effective_list ?all [T_int]) \<or> contains k (map fst ?args2)"
    by (simp add: e1 e2)
  note extended = C6_reference_container_aliases [THEN conjunct2, THEN conjunct2]
  from extended [of "effective_list ?all [T_int]" _ r1 ?all "[]" ?args2] rc1 t n2 c2
  obtain r2 where r2: "shared_references_extend ?all [] r1 ?args2 = Inr r2"
    and rc2: "reference_container (effective_list ?all [])
        (aliases_extend (effective_list ?all [])
           (aliases_args (effective_list ?all [T_int]) ?args1) ?args2) r2"
    by blast
  have k: "T_char \<in> set (effective_list ?all [])" by (simp add: e2)
  note aliased = C6_reference_container_aliases [THEN conjunct1]
  from aliased [of "effective_list ?all []" _ r2 T_char ?m 99] rc2 k
  obtain x ref ref' where x: "aliases_extend (effective_list ?all [])
        (aliases_args (effective_list ?all [T_int]) ?args1) ?args2 T_char = Some x"
    and g: "shared_references_get T_char r2 = Inr ref"
      "shared_references_get T_char (shared_references_copy r2) = Inr ref'"
      "(?m(ref := 99)) x = 99" "(?m(ref := 99)) ref' = 99"
    by blast
  from x have "x = Var 1" by (simp add: aliases_extend_def aliases_args_def e1 e2)
  with r1 r2 g show ?thesis by blast
qed

text \<open>
  C9. A resource container object built from the values of some locations holds copies in
  its own members: \<^verbatim>\<open>get<K>()\<close> returns the member of the object, the member holds the value
  of the seeding location, and assigning through it changes that member only. The seeding
  location and every location that is not a member of this object (a caller's variable, a
  member of another container) keep their values through the construction and the
  assignment. Building an object from another container and extra values changes only the
  members of the new object as well.
\<close>

theorem C9_resource_container_value_semantics:
  assumes "type_list_concept List" and "type_list_concept (map fst args)"
    and "contains_all (effective_list List Exclude) (map fst args)"
    and "K \<in> set (effective_list List Exclude)" and "(K, x) \<in> set args"
    and "\<forall>k. x \<noteq> Member c k"
  shows "(\<exists>m' ref. new_shared_resources c List Exclude args (m :: ('k, 'v) memory) = Inr m'
      \<and> shared_resources_ref K c (effective_list List Exclude) = Inr ref
      \<and> m' ref = m x
      \<and> (m'(ref := w)) ref = w
      \<and> (m'(ref := w)) x = m x
      \<and> (\<forall>l. (\<forall>k. l \<noteq> Member c k) \<longrightarrow> m' l = m l \<and> (m'(ref := w)) l = m l))
    \<and> (\<forall>m''. new_shared_resources_extend c List' Exclude' c0 list0 args' m = Inr m'' \<longrightarrow>
          (\<forall>l. (\<forall>k. l \<noteq> Member c k) \<longrightarrow> m'' l = m l))"
proof -
  let ?list = "effective_list List Exclude"
  let ?s = "map (\<lambda>k. (k, the (map_of (read_args m args) k))) ?list"
  let ?m' = "init_members c ?s m"
  from assms(4) have ne: "?list \<noteq> []" by auto
  have dl: "distinct ?list" using assms(1) by (rule distinct_effective_list)
  have da: "distinct (map fst args)" using assms(2) by (simp add: type_list_distinct)
  have sub: "set ?list \<subseteq> fst ` set args" using assms(3) by (simp add: contains_all_set)
  have da': "distinct (map fst (read_args m args))" using da by (simp add: fst_read_args)
  have "fst ` set (read_args m args) = fst ` set args"
    by (metis fst_read_args list.set_map)
  with sub have sub': "set ?list \<subseteq> fst ` set (read_args m args)" by simp
  have "shared_resources_args List Exclude (read_args m args) = Inr (Shared_resources ?s)"
    using assms(1) dl da' sub' storage_args_total [OF dl da' sub' ne]
    by (simp add: shared_resources_args_def contains_all_concept_set)
  then have new: "new_shared_resources c List Exclude args m = Inr ?m'"
    by (simp add: new_shared_resources_def)
  have ref: "shared_resources_ref K c ?list = Inr (Member c K)"
    using assms(4) by (rule shared_resources_ref_member)
  from da assms(5) have "map_of args K = Some x" by simp
  then have "map_of ?s K = Some (m x)"
    using assms(4) by (simp add: map_of_keyed map_of_read_args)
  moreover have "distinct (map fst ?s)" using dl by (simp add: comp_def)
  ultimately have copy: "?m' (Member c K) = m x" by (rule init_members_member [rotated])
  have frame: "?m' l = m l" if "\<forall>k. l \<noteq> Member c k" for l
    using that by (rule init_members_other)
  have first: "\<exists>m' ref. new_shared_resources c List Exclude args m = Inr m'
      \<and> shared_resources_ref K c ?list = Inr ref
      \<and> m' ref = m x
      \<and> (m'(ref := w)) ref = w
      \<and> (m'(ref := w)) x = m x
      \<and> (\<forall>l. (\<forall>k. l \<noteq> Member c k) \<longrightarrow> m' l = m l \<and> (m'(ref := w)) l = m l)"
  proof (intro exI [of _ ?m'] exI [of _ "Member c K"] conjI allI impI)
    show "(?m'(Member c K := w)) x = m x"
      using assms(6) frame [OF assms(6)] by simp
  next
    fix l :: "'k loc" assume l: "\<forall>k. l \<noteq> Member c k"
    then show "(?m'(Member c K := w)) l = m l" using frame [OF l] by simp
  qed (simp_all add: new ref copy frame)
  have second: "m'' l = m l"
    if "new_shared_resources_extend c List' Exclude' c0 list0 args' m = Inr m''"
      and "\<forall>k. l \<noteq> Member c k" for m'' l
    using that
    by (auto simp: new_shared_resources_extend_def init_members_other split: sum.splits)
  from first second show ?thesis by blast
qed

theorem C9_resource_container_value_semantics_witness:
  "type_list_concept [T_int, T_char]
   \<and> type_list_concept (map fst [(T_int, Var 0 :: kind loc), (T_char, Var 1)])
   \<and> (\<exists>m' ref.
         new_shared_resources 0 [T_int, T_char] [] [(T_int, Var 0), (T_char, Var 1)]
           ((\<lambda>l. 0::nat)(Var 0 := 1, Var 1 := 97, Member 7 T_int := 42)) = Inr m'
       \<and> shared_resources_ref T_int 0 [T_int, T_char] = Inr ref
       \<and> m' ref = 1
       \<and> (m'(ref := 5)) ref = 5
       \<and> (m'(ref := 5)) (Var 0) = 1
       \<and> (m'(ref := 5)) (Member 7 T_int) = 42)"
proof -
  let ?args = "[(T_int, Var 0 :: kind loc), (T_char, Var 1)]"
  let ?m = "(\<lambda>l. 0::nat)(Var 0 := 1, Var 1 := 97, Member 7 T_int := 42)"
  have e: "effective_list [T_int, T_char] [] = [T_int, T_char]" by (simp add: effective_list_def)
  have h1: "type_list_concept [T_int, T_char]" by (simp add: type_list_concept_def)
  have h2: "type_list_concept (map fst ?args)" by (simp add: type_list_concept_def)
  have h3: "contains_all (effective_list [T_int, T_char] []) (map fst ?args)" by (simp add: e)
  have h4: "T_int \<in> set (effective_list [T_int, T_char] [])" by (simp add: e)
  have h5: "(T_int, Var 0 :: kind loc) \<in> set ?args" by simp
  have h6: "\<forall>k. (Var 0 :: kind loc) \<noteq> Member 0 k" by simp
  from C9_resource_container_value_semantics [OF h1 h2 h3 h4 h5 h6, of ?m 5]
  obtain m' ref where n: "new_shared_resources 0 [T_int, T_char] [] ?args ?m = Inr m'"
    and r: "shared_resources_ref T_int 0 (effective_list [T_int, T_char] []) = Inr ref"
    and v: "m' ref = ?m (Var 0)" "(m'(ref := 5)) ref = 5" "(m'(ref := 5)) (Var 0) = ?m (Var 0)"
    and f: "\<forall>l. (\<forall>k. l \<noteq> Member 0 k) \<longrightarrow> m' l = ?m l \<and> (m'(ref := 5)) l = ?m l"
    by blast
  have "\<forall>k. Member 7 T_int \<noteq> Member 0 (k :: kind)" by simp
  with f have "(m'(ref := 5)) (Member 7 T_int) = ?m (Member 7 T_int)" by blast
  then have o: "(m'(ref := 5)) (Member 7 T_int) = 42" by simp
  from v have "m' ref = 1" "(m'(ref := 5)) (Var 0) = 1" by simp_all
  with h1 h2 n r v(2) o e show ?thesis by auto
qed

end
